theory Spec2Isabelle
  imports Main
begin

section \<open>The k8s-nameserver: data model\<close>

text \<open>
  The embedding follows \<^verbatim>\<open>cmd/k8s-nameserver/main.go\<close>. Byte slices and Go strings are
  \<^typ>\<open>string\<close>; a Go \<^verbatim>\<open>error\<close> is a value of \<open>error\<close>, and \<^verbatim>\<open>nil\<close> is \<open>None\<close>.
  The type \<^verbatim>\<open>netip.Addr\<close> is the type parameter \<open>'a\<close>.
\<close>

datatype error = Error string | Wrapf string error

type_synonym bytes = string
type_synonym FQDN = string

text \<open>
  \<^verbatim>\<open>operatorutils.TSHosts\<close>: the declaration is outside the files at hand; the code uses its
  one field \<^verbatim>\<open>Hosts map[string][]string\<close>. The Go map is an association list read with
  \<^const>\<open>map_of\<close>; a nil map and a nil slice are the empty list.
\<close>

record TSHosts =
  dnsHosts :: "(string \<times> string list) list"

text \<open>\<^verbatim>\<open>resolver.Config\<close>, with the two fields that the nameserver fills in.\<close>

record 'a Config =
  Hosts :: "FQDN \<rightharpoonup> 'a list"
  LocalDomains :: "FQDN list"

definition tsnetRootDomains :: "FQDN list" where
  "tsnetRootDomains = [''ts.net'', ''ts.net.'']"

text \<open>
  The calls that the nameserver makes on its collaborators, in the order in which it makes
  them. A log call is recorded with its format string.
\<close>

datatype 'a call =
    Logf string
  | Fatalf string
  | ReadConfig
  | SetConfig "'a Config"
  | CancelF
  | Go string
  | NewWatcher
  | WatcherAdd
  | ResolveUDPAddr
  | ListenUDP
  | WriteToUDP bytes string
  | ReadMsgUDP
  | ConnClose
  | WatcherClose

text \<open>
  The state that the methods of \<^verbatim>\<open>nameserver\<close> act on: the configuration held by the resolver
  \<^verbatim>\<open>n.res\<close>, whether the context shared with \<^verbatim>\<open>main\<close> has been cancelled, and the calls made
  so far.
\<close>

record 'a nameserver =
  res :: "'a Config"
  ctxCancelled :: bool
  calls :: "'a call list"

text \<open>
  The library functions that \<^verbatim>\<open>updateResolverConfig\<close> calls: \<^verbatim>\<open>json.Unmarshal\<close> into a fresh
  \<^verbatim>\<open>TSHosts\<close>, \<^verbatim>\<open>dnsname.ToFQDN\<close> and \<^verbatim>\<open>netip.ParseAddr\<close>. They are parameters of the model.
\<close>

record 'a deps =
  Unmarshal :: "bytes \<Rightarrow> error + TSHosts"
  ToFQDN :: "string \<Rightarrow> error + FQDN"
  ParseAddr :: "string \<Rightarrow> error + 'a"

text \<open>
  What one call of \<^verbatim>\<open>updateResolverConfig\<close> takes from its environment: the pair returned
  by \<^verbatim>\<open>n.configReader()\<close> (a nil slice is \<open>None\<close>), and the order in which the
  \<^verbatim>\<open>range\<close> statement visits the keys of \<^verbatim>\<open>dnsCfg.Hosts\<close>. Go leaves that order unspecified
  and it may differ from one execution of the loop to the next.
\<close>

record reload_input =
  readerResult :: "bytes option \<times> error option"
  rangeOrder :: "string list"

definition range_ok :: "(string \<times> string list) list \<Rightarrow> string list \<Rightarrow> bool" where
  "range_ok m order \<longleftrightarrow> distinct order \<and> set order = set (map fst m)"

section \<open>Effects\<close>

definition call :: "'a call \<Rightarrow> 'a nameserver \<Rightarrow> 'a nameserver" where
  "call c n = n\<lparr>calls := calls n @ [c]\<rparr>"

definition logger :: "string \<Rightarrow> 'a nameserver \<Rightarrow> 'a nameserver" where
  "logger format n = call (Logf format) n"

definition configReader :: "reload_input \<Rightarrow> 'a nameserver
    \<Rightarrow> (bytes option \<times> error option) \<times> 'a nameserver" where
  "configReader i n = (readerResult i, call ReadConfig n)"

text \<open>
  Modelled from the spec: \<^verbatim>\<open>resolver.SetConfig\<close> of \<^verbatim>\<open>net/dns/resolver\<close>, which is not among
  the files at hand. The spec gives its contract as an atomic replacement of the active
  configuration.
\<close>

definition resSetConfig :: "'a Config \<Rightarrow> 'a nameserver \<Rightarrow> 'a nameserver" where
  "resSetConfig c n = call (SetConfig c) (n\<lparr>res := c\<rparr>)"

definition cancelF :: "'a nameserver \<Rightarrow> 'a nameserver" where
  "cancelF n = call CancelF (n\<lparr>ctxCancelled := True\<rparr>)"

text \<open>The calls made between two states of one run.\<close>

definition newCalls :: "'a nameserver \<Rightarrow> 'a nameserver \<Rightarrow> 'a call list" where
  "newCalls n n' = drop (length (calls n)) (calls n')"

section \<open>updateResolverConfig\<close>

text \<open>
  The inner loop \<^verbatim>\<open>for _, ip := range ips\<close>. An early return carries the format string of
  its log call and the error.
\<close>

fun ipsLoop :: "(string \<Rightarrow> error + 'a) \<Rightarrow> FQDN \<Rightarrow> string list \<Rightarrow> (FQDN \<rightharpoonup> 'a list)
    \<Rightarrow> (string \<times> error) + (FQDN \<rightharpoonup> 'a list)" where
  "ipsLoop pa fqdn [] H = Inr H"
| "ipsLoop pa fqdn (ip # ips) H =
     (case pa ip of
        Inl err \<Rightarrow> Inl (''invalid DNS config: cannot convert %s to netip.Addr: %v'', err)
      | Inr a \<Rightarrow> ipsLoop pa fqdn ips (H(fqdn \<mapsto> [a])))"

text \<open>
  The outer loop \<^verbatim>\<open>for fqdn, ips := range dnsCfg.Hosts\<close>, over the keys in the order of the
  iteration.
\<close>

fun hostsLoop :: "'a deps \<Rightarrow> (string \<times> string list) list \<Rightarrow> string list
    \<Rightarrow> (FQDN \<rightharpoonup> 'a list) \<Rightarrow> (string \<times> error) + (FQDN \<rightharpoonup> 'a list)" where
  "hostsLoop d m [] H = Inr H"
| "hostsLoop d m (h # hs) H =
     (case map_of m h of
        None \<Rightarrow> hostsLoop d m hs H
      | Some ips \<Rightarrow>
          (case ToFQDN d h of
             Inl err \<Rightarrow> Inl (''invalid DNS config: cannot convert %s to FQDN: %v'', err)
           | Inr fqdn \<Rightarrow>
               (case ipsLoop (ParseAddr d) fqdn ips H of
                  Inl e \<Rightarrow> Inl e
                | Inr H' \<Rightarrow> hostsLoop d m hs H')))"

text \<open>The check \<^verbatim>\<open>dnsCfg.Hosts == nil || len(dnsCfg.Hosts) == 0\<close>, which only logs.\<close>

definition logIfNoHosts :: "TSHosts \<Rightarrow> 'a nameserver \<Rightarrow> 'a nameserver" where
  "logIfNoHosts dnsCfg n =
     (if length (dnsHosts dnsCfg) = 0 then logger ''no host records found'' n else n)"

definition updateResolverConfig :: "'a deps \<Rightarrow> reload_input \<Rightarrow> 'a nameserver
    \<Rightarrow> error option \<times> 'a nameserver" where
  "updateResolverConfig d i n =
     (case configReader i n of
        ((dnsCfgBytes, Some err), n1) \<Rightarrow> (Some err, logger ''error reading config: %v'' n1)
      | ((dnsCfgBytes, None), n1) \<Rightarrow>
          if dnsCfgBytes = None \<or> length (the dnsCfgBytes) < 1
          then (None, logger ''no DNS config provided'' n1)
          else
            (case Unmarshal d (the dnsCfgBytes) of
               Inl err \<Rightarrow> (Some err, logger ''error unmarshaling json: %v'' n1)
             | Inr dnsCfg \<Rightarrow>
                 let n2 = logIfNoHosts dnsCfg n1
                 in (case hostsLoop d (dnsHosts dnsCfg) (rangeOrder i) Map.empty of
                       Inl (format, err) \<Rightarrow> (Some err, logger format n2)
                     | Inr H \<Rightarrow>
                         (None, resSetConfig \<lparr>Hosts = H, LocalDomains = tsnetRootDomains\<rparr> n2))))"

section \<open>run and its watch loop\<close>

text \<open>
  What the \<^verbatim>\<open>select\<close> statement of the background task yields in one iteration: the case
  \<^verbatim>\<open>ctx.Done()\<close>, or a receive from \<^verbatim>\<open>n.configWatcher\<close>. A receive carries the received
  string and whether the channel was open (a receive from a closed channel yields the zero
  value at once); the code binds neither. It also carries what the reload of that iteration
  takes from its environment. Which case is taken is for the Go runtime to decide, and the
  context can be cancelled by other tasks too, so the list of cases is an input.
\<close>

datatype select_case = CtxDone | ConfigWatcher string bool reload_input

datatype task_status = Exited | Waiting

text \<open>The body of the case \<^verbatim>\<open><-n.configWatcher\<close> of the \<^verbatim>\<open>select\<close>.\<close>

definition onConfigWatcher :: "'a deps \<Rightarrow> reload_input \<Rightarrow> 'a nameserver \<Rightarrow> 'a nameserver" where
  "onConfigWatcher d i n =
     (case updateResolverConfig d i (logger ''attempting to update resolver config...'' n) of
        (Some err, n1) \<Rightarrow>
          logger ''successfully updated resolver config''
            (cancelF (logger ''error updating resolver config: %w'' n1))
      | (None, n1) \<Rightarrow> logger ''successfully updated resolver config'' n1)"

text \<open>
  The \<^verbatim>\<open>for { select { ... } }\<close> of the task, run on a finite prefix of what its \<^verbatim>\<open>select\<close>
  yields. With the prefix used up and no return, the task is still waiting in \<^verbatim>\<open>select\<close>.
\<close>

fun watchLoop :: "'a deps \<Rightarrow> select_case list \<Rightarrow> 'a nameserver \<Rightarrow> task_status \<times> 'a nameserver" where
  "watchLoop d [] n = (Waiting, n)"
| "watchLoop d (CtxDone # rest) n = (Exited, logger ''nameserver exiting'' n)"
| "watchLoop d (ConfigWatcher msg ok i # rest) n = watchLoop d rest (onConfigWatcher d i n)"

definition run :: "'a deps \<Rightarrow> reload_input \<Rightarrow> 'a nameserver \<Rightarrow> error option \<times> 'a nameserver" where
  "run d i n =
     (case updateResolverConfig d i (logger ''setting initial resolver config'' n) of
        (Some err, n1) \<Rightarrow> (Some (Wrapf ''error updating resolver config: %w'' err), n1)
      | (None, n1) \<Rightarrow>
          (None, call (Go ''watch loop'') (logger ''successfully updated resolver config'' n1)))"

section \<open>query and main\<close>

text \<open>
  \<^verbatim>\<open>n.res.Query\<close> is a parameter: it answers from the configuration that the resolver holds.
  The context argument is left out.
\<close>

definition query :: "('a Config \<Rightarrow> bytes \<Rightarrow> string \<Rightarrow> string \<Rightarrow> bytes \<times> error option)
    \<Rightarrow> 'a nameserver \<Rightarrow> bytes \<Rightarrow> string \<Rightarrow> bytes \<times> error option" where
  "query resQuery n payload add = resQuery (res n) payload ''udp'' add"

text \<open>
  The task that \<^verbatim>\<open>main\<close> starts for one datagram. The sender's address is its text, so
  \<^verbatim>\<open>addr.AddrPort()\<close> is the identity; \<open>wr\<close> is the error returned by \<^verbatim>\<open>conn.WriteToUDP\<close>.
\<close>

definition serveDatagram :: "('a Config \<Rightarrow> bytes \<Rightarrow> string \<Rightarrow> string \<Rightarrow> bytes \<times> error option)
    \<Rightarrow> bytes \<Rightarrow> string \<Rightarrow> error option \<Rightarrow> 'a nameserver \<Rightarrow> 'a nameserver" where
  "serveDatagram resQuery payloadBuff addr wr n =
     (case query resQuery n payloadBuff addr of
        (dnsAnswer, err) \<Rightarrow>
          let n1 = (case err of
                      Some e \<Rightarrow> logger ''error querying internal resolver: %v'' n
                    | None \<Rightarrow> n);
              n2 = call (WriteToUDP dnsAnswer addr) n1
          in (case wr of
                Some e \<Rightarrow> logger ''error writing UDP response: %v'' n2
              | None \<Rightarrow> logger ''written %d bytes in response'' n2))"

text \<open>
  The sequence of \<^verbatim>\<open>main\<close> up to its serving loop, as a function of what the calls on the
  operating system return. \<^verbatim>\<open>log.Fatalf\<close> ends the process. A \<^verbatim>\<open>go\<close> statement is recorded
  as a call: the body of the task started by \<^verbatim>\<open>run\<close> is \<open>watchLoop\<close>, the body of the task
  started for a datagram is \<open>serveDatagram\<close>; the task that forwards file events to the
  channel runs beside this sequence and has no model here.
\<close>

record main_input =
  newWatcherErr :: "error option"
  watcherAddErr :: "error option"
  initialReload :: reload_input
  resolveUDPAddrErr :: "error option"
  listenUDPErr :: "error option"

datatype main_status = Exit1 | Listening

definition main :: "'a deps \<Rightarrow> main_input \<Rightarrow> 'a nameserver \<Rightarrow> main_status \<times> 'a nameserver" where
  "main d mi n =
     (let n1 = call NewWatcher n in
      case newWatcherErr mi of
        Some err \<Rightarrow> (Exit1, call (Fatalf ''error creating a new configfile watcher: %v'') n1)
      | None \<Rightarrow>
          let n2 = call WatcherAdd (call (Go ''file watch'') n1) in
          (case watcherAddErr mi of
             Some err \<Rightarrow>
               (Exit1, call (Fatalf ''failed setting up file watch for DNS config: %v'') n2)
           | None \<Rightarrow>
               (case run d (initialReload mi) n2 of
                  (Some err, n3) \<Rightarrow> (Exit1, call (Fatalf ''error running nameserver: %v'') n3)
                | (None, n3) \<Rightarrow>
                    let n4 = call ResolveUDPAddr n3 in
                    (case resolveUDPAddrErr mi of
                       Some err \<Rightarrow> (Exit1, call (Fatalf ''error resolving UDP address: %v'') n4)
                     | None \<Rightarrow>
                         let n5 = call ListenUDP n4 in
                         (case listenUDPErr mi of
                            Some err \<Rightarrow>
                              (Exit1, call (Fatalf ''error opening udp connection: %v'') n5)
                          | None \<Rightarrow>
                              (Listening,
                               logger ''ts.net nameserver listening on: %v''
                                 (call (Go ''close on done'') n5)))))))"

section \<open>The tasks of the serving process\<close>

text \<open>
  Once \<^verbatim>\<open>main\<close> listens, three tasks share the context: the watch loop started by \<^verbatim>\<open>run\<close>,
  the task \<^verbatim>\<open><-ctx.Done(); conn.Close()\<close>, and the \<^verbatim>\<open>for\<close> loop of \<^verbatim>\<open>main\<close> that reads
  datagrams. The state of the process is the state of the nameserver, whether the
  connection has been closed, and for each task whether it has returned.
\<close>

record 'a process =
  ns :: "'a nameserver"
  connClosed :: bool
  watchTask :: task_status
  closeTask :: task_status
  mainTask :: task_status

text \<open>The process when \<^verbatim>\<open>main\<close> enters its \<^verbatim>\<open>for\<close> loop.\<close>

definition serving :: "'a nameserver \<Rightarrow> 'a process" where
  "serving n = \<lparr>ns = n, connClosed = False, watchTask = Waiting, closeTask = Waiting,
     mainTask = Waiting\<rparr>"

text \<open>
  \<^verbatim>\<open>conn.ReadMsgUDP\<close> of the Go library: while the connection is open it returns what the
  operating system delivers, a datagram with its sender or an error; on a closed connection
  it returns an error, also when \<^verbatim>\<open>Close\<close> comes while the read is blocked.
\<close>

definition connReadMsgUDP :: "error + bytes \<times> string \<Rightarrow> 'a process \<Rightarrow> error + bytes \<times> string" where
  "connReadMsgUDP rd p =
     (if connClosed p then Inl (Error ''use of closed network connection'') else rd)"

text \<open>One iteration of the watch loop, when the task has not returned.\<close>

definition watchStep :: "'a deps \<Rightarrow> select_case \<Rightarrow> 'a process \<Rightarrow> 'a process" where
  "watchStep d sc p =
     (if watchTask p = Exited then p
      else (case watchLoop d [sc] (ns p) of (st, n) \<Rightarrow> p\<lparr>ns := n, watchTask := st\<rparr>))"

text \<open>
  The task \<^verbatim>\<open><-ctx.Done(); conn.Close()\<close>: it waits until the context is cancelled, closes the
  connection and returns.
\<close>

definition closeStep :: "'a process \<Rightarrow> 'a process" where
  "closeStep p =
     (if closeTask p = Exited \<or> \<not> ctxCancelled (ns p) then p
      else p\<lparr>ns := call ConnClose (ns p), connClosed := True, closeTask := Exited\<rparr>)"

text \<open>
  One iteration of the \<^verbatim>\<open>for\<close> loop of \<^verbatim>\<open>main\<close>, taken when the read returns. On an error
  \<^verbatim>\<open>main\<close> logs and returns, which runs its deferred \<^verbatim>\<open>watcher.Close()\<close> and \<^verbatim>\<open>cancel()\<close>
  and ends the process; otherwise it starts the task that serves the datagram.
\<close>

definition mainStep :: "error + bytes \<times> string \<Rightarrow> 'a process \<Rightarrow> 'a process" where
  "mainStep rd p =
     (if mainTask p = Exited then p
      else
        let n1 = call ReadMsgUDP (logger ''parsing a query'' (ns p)) in
        (case connReadMsgUDP rd p of
           Inl err \<Rightarrow>
             p\<lparr>ns := cancelF (call WatcherClose (logger ''error reading UDP message: %v'' n1)),
               mainTask := Exited\<rparr>
         | Inr (payloadBuff, addr) \<Rightarrow> p\<lparr>ns := call (Go ''serve datagram'') n1\<rparr>))"

text \<open>
  The tasks run interleaved: a schedule lists which task takes its next step, with what that
  step takes from its environment. When \<^verbatim>\<open>main\<close> has returned the process has ended and no
  task takes a step.
\<close>

datatype task_step = WatchSelect select_case | CloseOnDone | MainRead "error + bytes \<times> string"

definition step :: "'a deps \<Rightarrow> task_step \<Rightarrow> 'a process \<Rightarrow> 'a process" where
  "step d s p =
     (if mainTask p = Exited then p
      else (case s of
              WatchSelect sc \<Rightarrow> watchStep d sc p
            | CloseOnDone \<Rightarrow> closeStep p
            | MainRead rd \<Rightarrow> mainStep rd p))"

fun system :: "'a deps \<Rightarrow> task_step list \<Rightarrow> 'a process \<Rightarrow> 'a process" where
  "system d [] p = p"
| "system d (s # sched) p = system d sched (step d s p)"

text \<open>
  What holds of the process from a cancellation on: the context is cancelled, and the closing
  task has either not yet taken its step or has closed the connection.
\<close>

definition cancelled_inv :: "'a process \<Rightarrow> bool" where
  "cancelled_inv p \<longleftrightarrow> ctxCancelled (ns p) \<and> (closeTask p = Waiting \<or> connClosed p)"

text \<open>The state once the reader was called and the decoded map was looked at.\<close>

definition afterRead :: "TSHosts \<Rightarrow> 'a nameserver \<Rightarrow> 'a nameserver" where
  "afterRead dnsCfg n = logIfNoHosts dnsCfg (call ReadConfig n)"

section \<open>Hostnames that share a name\<close>

text \<open>
  Two keys of the decoded map can have the same normal form (a name with and without its
  trailing dot). \<open>no_alias\<close> holds when no two distinct hostnames with addresses do;
  \<open>no_alias_of\<close> says it of one hostname.
\<close>

definition no_alias_of :: "'a deps \<Rightarrow> (string \<times> string list) list \<Rightarrow> string \<Rightarrow> bool" where
  "no_alias_of d m h \<longleftrightarrow>
     list_all (\<lambda>h'. h' = h \<or> map_of m h' = Some [] \<or> ToFQDN d h' \<noteq> ToFQDN d h) (map fst m)"

definition no_alias :: "'a deps \<Rightarrow> (string \<times> string list) list \<Rightarrow> bool" where
  "no_alias d m \<longleftrightarrow>
     list_all (\<lambda>h. map_of m h = Some [] \<or> no_alias_of d m h) (map fst m)"

text \<open>
  A hostname list is valid when every hostname has a normal form and every address parses:
  the two checks of the loops.
\<close>

definition entry_ok :: "'a deps \<Rightarrow> string \<times> string list \<Rightarrow> bool" where
  "entry_ok d e \<longleftrightarrow>
     \<not> isl (ToFQDN d (fst e)) \<and> list_all (\<lambda>ip. \<not> isl (ParseAddr d ip)) (snd e)"

section \<open>Sample inputs\<close>

text \<open>
  Stand-ins for the three library functions on the sample documents below, as the mock
  reader of the repository's test stands in for the file. Addresses are lists of octets.
  \<open>sample_ToFQDN\<close> adds the trailing dot to a name that lacks it; \<open>sample_ParseAddr\<close> knows
  the addresses of the samples and rejects every other string; \<open>sample_Unmarshal\<close> decodes the
  sample documents and reports every other input as malformed.
\<close>

definition sample_ToFQDN :: "string \<Rightarrow> error + FQDN" where
  "sample_ToFQDN s = (if s \<noteq> [] \<and> last s = CHR ''.'' then Inr s else Inr (s @ ''.''))"

definition sample_ParseAddr :: "string \<Rightarrow> error + nat list" where
  "sample_ParseAddr s =
     (if s = ''10.20.30.40'' then Inr [10, 20, 30, 40]
      else if s = ''10.40.30.20'' then Inr [10, 40, 30, 20]
      else if s = ''10.0.0.1'' then Inr [10, 0, 0, 1]
      else Inl (Error ''unable to parse IP''))"

definition doc_foo :: bytes where
  \<open>doc_foo = ''{"hosts":{"foo.bar.ts.net.":["10.20.30.40"]}}''\<close>

definition doc_no_hosts :: bytes where
  \<open>doc_no_hosts = ''{"hosts":{}}''\<close>

definition doc_bad_addr :: bytes where
  \<open>doc_bad_addr = ''{"hosts":{"foo.bar.ts.net.":["10.20.30.40"],"baz.bar.ts.net.":["not-an-ip"]}}''\<close>

definition doc_two_addrs :: bytes where
  \<open>doc_two_addrs = ''{"hosts":{"foo.bar.ts.net.":["10.20.30.40","10.40.30.20"]}}''\<close>

definition doc_alias :: bytes where
  \<open>doc_alias = ''{"hosts":{"foo.bar.ts.net":["10.20.30.40","10.40.30.20"],"foo.bar.ts.net.":["10.0.0.1"]}}''\<close>

definition doc_no_addrs :: bytes where
  \<open>doc_no_addrs = ''{"hosts":{"foo.bar.ts.net.":[],"baz.bar.ts.net.":["10.40.30.20"]}}''\<close>

definition doc_alias_no_addrs :: bytes where
  \<open>doc_alias_no_addrs = ''{"hosts":{"foo.bar.ts.net":[],"foo.bar.ts.net.":["10.20.30.40"]}}''\<close>

definition doc_no_addrs_bad :: bytes where
  \<open>doc_no_addrs_bad = ''{"hosts":{"foo.bar.ts.net.":[],"baz.bar.ts.net.":["not-an-ip"]}}''\<close>

definition doc_malformed :: bytes where
  \<open>doc_malformed = ''{"hosts":''\<close>

definition sample_Unmarshal :: "bytes \<Rightarrow> error + TSHosts" where
  "sample_Unmarshal b =
     (if b = doc_foo then Inr \<lparr>dnsHosts = [(''foo.bar.ts.net.'', [''10.20.30.40''])]\<rparr>
      else if b = doc_no_hosts then Inr \<lparr>dnsHosts = []\<rparr>
      else if b = doc_bad_addr then
        Inr \<lparr>dnsHosts = [(''foo.bar.ts.net.'', [''10.20.30.40'']),
                          (''baz.bar.ts.net.'', [''not-an-ip''])]\<rparr>
      else if b = doc_two_addrs then
        Inr \<lparr>dnsHosts = [(''foo.bar.ts.net.'', [''10.20.30.40'', ''10.40.30.20''])]\<rparr>
      else if b = doc_alias then
        Inr \<lparr>dnsHosts = [(''foo.bar.ts.net'', [''10.20.30.40'', ''10.40.30.20'']),
                          (''foo.bar.ts.net.'', [''10.0.0.1''])]\<rparr>
      else if b = doc_no_addrs then
        Inr \<lparr>dnsHosts = [(''foo.bar.ts.net.'', []), (''baz.bar.ts.net.'', [''10.40.30.20''])]\<rparr>
      else if b = doc_alias_no_addrs then
        Inr \<lparr>dnsHosts = [(''foo.bar.ts.net'', []), (''foo.bar.ts.net.'', [''10.20.30.40''])]\<rparr>
      else if b = doc_no_addrs_bad then
        Inr \<lparr>dnsHosts = [(''foo.bar.ts.net.'', []), (''baz.bar.ts.net.'', [''not-an-ip''])]\<rparr>
      else Inl (Error ''unexpected end of JSON input''))"

definition sample_deps :: "nat list deps" where
  "sample_deps =
     \<lparr>Unmarshal = sample_Unmarshal, ToFQDN = sample_ToFQDN, ParseAddr = sample_ParseAddr\<rparr>"

text \<open>A reader that returns the document, and one that finds no file.\<close>

definition reads :: "bytes \<Rightarrow> string list \<Rightarrow> reload_input" where
  "reads b order = \<lparr>readerResult = (Some b, None), rangeOrder = order\<rparr>"

definition reads_nothing :: reload_input where
  "reads_nothing = \<lparr>readerResult = (None, None), rangeOrder = []\<rparr>"

text \<open>A start of \<^verbatim>\<open>main\<close> in which every call on the operating system succeeds and the
  file holds a truncated document.\<close>

definition sample_main_input :: main_input where
  "sample_main_input = \<lparr>newWatcherErr = None, watcherAddErr = None,
     initialReload = reads doc_malformed [], resolveUDPAddrErr = None, listenUDPErr = None\<rparr>"

text \<open>A nameserver before its first reload: the resolver holds no records.\<close>

definition ns0 :: "nat list nameserver" where
  "ns0 = \<lparr>res = \<lparr>Hosts = Map.empty, LocalDomains = []\<rparr>, ctxCancelled = False, calls = []\<rparr>"

section \<open>Facts about the two loops\<close>


lemma ipsLoop_Inr:
  "ipsLoop pa fq ips H = Inr H' \<Longrightarrow>
     (\<forall>ip\<in>set ips. \<exists>a. pa ip = Inr a) \<and> (ips = [] \<longrightarrow> H' = H) \<and>
     (ips \<noteq> [] \<longrightarrow> (\<exists>a. pa (last ips) = Inr a \<and> H' = H(fq \<mapsto> [a])))"
proof (induction ips arbitrary: H)
  case Nil
  then show ?case by simp
next
  case (Cons ip ips)
  from Cons.prems obtain a where a: "pa ip = Inr a"
    and rest: "ipsLoop pa fq ips (H(fq \<mapsto> [a])) = Inr H'"
    by (auto split: sum.splits)
  from Cons.IH [OF rest] a show ?case by (cases "ips = []") (auto simp: fun_eq_iff)
qed

lemma ipsLoop_Inl_iff:
  "(\<exists>e. ipsLoop pa fq ips H = Inl e) \<longleftrightarrow> (\<exists>ip\<in>set ips. \<exists>e. pa ip = Inl e)"
  by (induction ips arbitrary: H) (auto split: sum.splits)

lemma hostsLoop_Inl_iff:
  "(\<exists>e. hostsLoop d m order H = Inl e) \<longleftrightarrow>
     (\<exists>h\<in>set order. \<exists>ips. map_of m h = Some ips \<and>
        ((\<exists>e. ToFQDN d h = Inl e) \<or> (\<exists>ip\<in>set ips. \<exists>e. ParseAddr d ip = Inl e)))"
proof (induction order arbitrary: H)
  case Nil
  then show ?case by simp
next
  case (Cons h hs)
  show ?case
  proof (cases "map_of m h")
    case None
    then show ?thesis using Cons.IH [of H] by auto
  next
    case (Some ips)
    show ?thesis
    proof (cases "ToFQDN d h")
      case (Inl e)
      then show ?thesis using Some by auto
    next
      case (Inr fq)
      show ?thesis
      proof (cases "ipsLoop (ParseAddr d) fq ips H")
        case (Inl e)
        then have "\<exists>ip\<in>set ips. \<exists>e. ParseAddr d ip = Inl e"
          using ipsLoop_Inl_iff [of "ParseAddr d" fq ips H] by blast
        then show ?thesis using Some Inr Inl by auto
      next
        case (Inr H1)
        then have ok: "\<not> (\<exists>ip\<in>set ips. \<exists>e. ParseAddr d ip = Inl e)"
          using ipsLoop_Inl_iff [of "ParseAddr d" fq ips H] by auto
        show ?thesis using Some \<open>ToFQDN d h = Inr fq\<close> Inr ok Cons.IH [of H1] by auto
      qed
    qed
  qed
qed

lemma hostsLoop_untouched:
  "hostsLoop d m order H = Inr H' \<Longrightarrow>
   \<forall>h\<in>set order. ToFQDN d h = Inr fq \<longrightarrow> map_of m h = None \<or> map_of m h = Some [] \<Longrightarrow>
   H' fq = H fq"
proof (induction order arbitrary: H)
  case Nil
  then show ?case by simp
next
  case (Cons h hs)
  show ?case
  proof (cases "map_of m h")
    case None
    then show ?thesis using Cons by simp
  next
    case (Some ips)
    from Cons.prems(1) Some obtain fq' H1 where fq': "ToFQDN d h = Inr fq'"
      and H1: "ipsLoop (ParseAddr d) fq' ips H = Inr H1"
      and rest: "hostsLoop d m hs H1 = Inr H'"
      by (auto split: sum.splits)
    have "H1 fq = H fq"
    proof (cases "fq' = fq")
      case True
      then have "ips = []" using Cons.prems(2) fq' Some by auto
      then show ?thesis using H1 by simp
    next
      case False
      then show ?thesis using ipsLoop_Inr [OF H1] by (cases "ips = []") auto
    qed
    moreover have "H' fq = H1 fq" using Cons.IH [OF rest] Cons.prems(2) by simp
    ultimately show ?thesis by simp
  qed
qed

lemma hostsLoop_writer:
  assumes "hostsLoop d m order H = Inr H'" and "distinct order" and "h \<in> set order"
    and "map_of m h = Some ips" and "ips \<noteq> []" and "ToFQDN d h = Inr fq"
    and "\<forall>h'\<in>set order. h' \<noteq> h \<longrightarrow> ToFQDN d h' = Inr fq \<longrightarrow>
           map_of m h' = None \<or> map_of m h' = Some []"
  shows "\<exists>a. ParseAddr d (last ips) = Inr a \<and> H' fq = Some [a]"
  using assms
proof (induction order arbitrary: H)
  case Nil
  then show ?case by simp
next
  case (Cons k ks)
  show ?case
  proof (cases "k = h")
    case True
    from Cons.prems(1) True Cons.prems(4,6) obtain H1
      where H1: "ipsLoop (ParseAddr d) fq ips H = Inr H1"
        and rest: "hostsLoop d m ks H1 = Inr H'"
      by (auto split: sum.splits)
    from ipsLoop_Inr [OF H1] Cons.prems(5) obtain a
      where a: "ParseAddr d (last ips) = Inr a" and "H1 = H(fq \<mapsto> [a])" by auto
    then have "H1 fq = Some [a]" by simp
    moreover have "H' fq = H1 fq"
    proof (rule hostsLoop_untouched [OF rest])
      show "\<forall>h\<in>set ks. ToFQDN d h = Inr fq \<longrightarrow> map_of m h = None \<or> map_of m h = Some []"
        using Cons.prems(2,7) True by auto
    qed
    ultimately show ?thesis using a by simp
  next
    case False
    then have hks: "h \<in> set ks" using Cons.prems(3) by simp
    have dks: "distinct ks" using Cons.prems(2) by simp
    have others: "\<forall>h'\<in>set ks. h' \<noteq> h \<longrightarrow> ToFQDN d h' = Inr fq \<longrightarrow>
           map_of m h' = None \<or> map_of m h' = Some []"
      using Cons.prems(7) by simp
    show ?thesis
    proof (cases "map_of m k")
      case None
      then have "hostsLoop d m ks H = Inr H'" using Cons.prems(1) by simp
      from Cons.IH [OF this dks hks Cons.prems(4,5,6) others] show ?thesis .
    next
      case (Some kips)
      from Cons.prems(1) Some obtain fq' H1 where "ToFQDN d k = Inr fq'"
        and "ipsLoop (ParseAddr d) fq' kips H = Inr H1"
        and rest: "hostsLoop d m ks H1 = Inr H'"
        by (auto split: sum.splits)
      from Cons.IH [OF rest dks hks Cons.prems(4,5,6) others] show ?thesis .
    qed
  qed
qed

lemma hostsLoop_values:
  "hostsLoop d m order H = Inr H' \<Longrightarrow>
   \<forall>fq v. H fq = Some v \<longrightarrow> (\<exists>a s. v = [a] \<and> ParseAddr d s = Inr a) \<Longrightarrow>
   H' fq = Some v \<Longrightarrow> \<exists>a s. v = [a] \<and> ParseAddr d s = Inr a"
proof (induction order arbitrary: H)
  case Nil
  then show ?case by simp
next
  case (Cons h hs)
  show ?case
  proof (cases "map_of m h")
    case None
    then show ?thesis using Cons by simp
  next
    case (Some ips)
    from Cons.prems(1) Some obtain fq' H1 where fq': "ToFQDN d h = Inr fq'"
      and H1: "ipsLoop (ParseAddr d) fq' ips H = Inr H1"
      and rest: "hostsLoop d m hs H1 = Inr H'"
      by (auto split: sum.splits)
    have "\<forall>fq v. H1 fq = Some v \<longrightarrow> (\<exists>a s. v = [a] \<and> ParseAddr d s = Inr a)"
    proof (cases "ips = []")
      case True
      then show ?thesis using H1 Cons.prems(2) by simp
    next
      case False
      with ipsLoop_Inr [OF H1] obtain a where "ParseAddr d (last ips) = Inr a"
        and "H1 = H(fq' \<mapsto> [a])" by auto
      then show ?thesis using Cons.prems(2) by auto
    qed
    from Cons.IH [OF rest this Cons.prems(3)] show ?thesis .
  qed
qed


section \<open>Facts about updateResolverConfig\<close>

lemma updateResolverConfig_cases:
  obtains
    (ReadError) bs e where "readerResult i = (bs, Some e)"
      and "updateResolverConfig d i n = (Some e, logger ''error reading config: %v'' (call ReadConfig n))"
  | (NoConfig) bs where "readerResult i = (bs, None)" and "bs = None \<or> bs = Some []"
      and "updateResolverConfig d i n = (None, logger ''no DNS config provided'' (call ReadConfig n))"
  | (BadJSON) b e where "readerResult i = (Some b, None)" and "b \<noteq> []"
      and "Unmarshal d b = Inl e"
      and "updateResolverConfig d i n =
             (Some e, logger ''error unmarshaling json: %v'' (call ReadConfig n))"
  | (BadEntry) b dnsCfg format e where "readerResult i = (Some b, None)" and "b \<noteq> []"
      and "Unmarshal d b = Inr dnsCfg"
      and "hostsLoop d (dnsHosts dnsCfg) (rangeOrder i) Map.empty = Inl (format, e)"
      and "updateResolverConfig d i n = (Some e, logger format (afterRead dnsCfg n))"
  | (Applied) b dnsCfg H where "readerResult i = (Some b, None)" and "b \<noteq> []"
      and "Unmarshal d b = Inr dnsCfg"
      and "hostsLoop d (dnsHosts dnsCfg) (rangeOrder i) Map.empty = Inr H"
      and "updateResolverConfig d i n =
             (None, resSetConfig \<lparr>Hosts = H, LocalDomains = tsnetRootDomains\<rparr> (afterRead dnsCfg n))"
proof (cases "readerResult i")
  case (Pair bs eo)
  show ?thesis
  proof (cases eo)
    case (Some e)
    then show ?thesis using Pair ReadError
      by (simp add: updateResolverConfig_def configReader_def)
  next
    case None
    show ?thesis
    proof (cases "bs = None \<or> bs = Some []")
      case True
      then show ?thesis using Pair None NoConfig [of bs]
        by (auto simp: updateResolverConfig_def configReader_def)
    next
      case False
      then obtain b where b: "bs = Some b" "b \<noteq> []" by auto
      show ?thesis
      proof (cases "Unmarshal d b")
        case (Inl e)
        then show ?thesis using Pair None b BadJSON [of b e]
          by (simp add: updateResolverConfig_def configReader_def)
      next
        case (Inr dnsCfg)
        show ?thesis
        proof (cases "hostsLoop d (dnsHosts dnsCfg) (rangeOrder i) Map.empty")
          case (Inl fe)
          then show ?thesis using Pair None b Inr BadEntry [of b dnsCfg "fst fe" "snd fe"]
            by (cases fe) (simp add: updateResolverConfig_def configReader_def afterRead_def)
        next
          case Inr2: (Inr H)
          then show ?thesis using Pair None b Inr Applied [of b dnsCfg H]
            by (simp add: updateResolverConfig_def configReader_def afterRead_def)
        qed
      qed
    qed
  qed
qed

lemma calls_simps [simp]:
  "calls (call c n) = calls n @ [c]"
  "calls (logger f n) = calls n @ [Logf f]"
  "calls (resSetConfig cfg n) = calls n @ [SetConfig cfg]"
  "calls (cancelF n) = calls n @ [CancelF]"
  "calls (afterRead dnsCfg n) =
     calls n @ ReadConfig # (if length (dnsHosts dnsCfg) = 0 then [Logf ''no host records found''] else [])"
  by (simp_all add: call_def logger_def resSetConfig_def cancelF_def afterRead_def logIfNoHosts_def)

lemma res_simps [simp]:
  "res (call c n) = res n"
  "res (logger f n) = res n"
  "res (resSetConfig cfg n) = cfg"
  "res (cancelF n) = res n"
  "res (afterRead dnsCfg n) = res n"
  by (simp_all add: call_def logger_def resSetConfig_def cancelF_def afterRead_def logIfNoHosts_def)

lemma ctxCancelled_simps [simp]:
  "ctxCancelled (call c n) = ctxCancelled n"
  "ctxCancelled (logger f n) = ctxCancelled n"
  "ctxCancelled (resSetConfig cfg n) = ctxCancelled n"
  "ctxCancelled (cancelF n) = True"
  "ctxCancelled (afterRead dnsCfg n) = ctxCancelled n"
  by (simp_all add: call_def logger_def resSetConfig_def cancelF_def afterRead_def logIfNoHosts_def)

lemma newCalls_append [simp]: "calls n' = calls n @ cs \<Longrightarrow> newCalls n n' = cs"
  by (simp add: newCalls_def)

lemma updateResolverConfig_error_indep:
  "fst (updateResolverConfig d i n) = fst (updateResolverConfig d i n')"
  by (cases rule: updateResolverConfig_cases [of i d n];
      cases rule: updateResolverConfig_cases [of i d n']) auto


lemma updateResolverConfig_calls:
  "\<exists>cs. calls (snd (updateResolverConfig d i n)) = calls n @ ReadConfig # cs \<and>
        ReadConfig \<notin> set cs \<and> CancelF \<notin> set cs \<and> ListenUDP \<notin> set cs \<and>
        (\<forall>g. Go g \<notin> set cs) \<and>
        ctxCancelled (snd (updateResolverConfig d i n)) = ctxCancelled n"
  by (cases rule: updateResolverConfig_cases [of i d n]) auto

lemma updateResolverConfig_error_keeps_res:
  "fst (updateResolverConfig d i n) = Some e \<Longrightarrow> res (snd (updateResolverConfig d i n)) = res n"
  by (cases rule: updateResolverConfig_cases [of i d n]) auto

lemma update_applied:
  assumes "readerResult i = (Some b, None)" and "b \<noteq> []" and "Unmarshal d b = Inr dnsCfg"
    and "hostsLoop d (dnsHosts dnsCfg) (rangeOrder i) Map.empty = Inr H"
  shows "updateResolverConfig d i n =
           (None, resSetConfig \<lparr>Hosts = H, LocalDomains = tsnetRootDomains\<rparr> (afterRead dnsCfg n))"
  using assms
  by (simp add: updateResolverConfig_def configReader_def afterRead_def Let_def)

lemma update_applied_facts:
  assumes "readerResult i = (Some b, None)" and "b \<noteq> []" and "Unmarshal d b = Inr dnsCfg"
    and "hostsLoop d (dnsHosts dnsCfg) (rangeOrder i) Map.empty = Inr H"
  shows "fst (updateResolverConfig d i n) = None"
    and "Hosts (res (snd (updateResolverConfig d i n))) = H"
    and "SetConfig (res (snd (updateResolverConfig d i n)))
           \<in> set (newCalls n (snd (updateResolverConfig d i n)))"
  by (simp_all add: update_applied [OF assms] newCalls_def)

lemma updateResolverConfig_no_config:
  assumes "readerResult i = (bs, None)" and "bs = None \<or> bs = Some []"
  shows "updateResolverConfig d i n = (None, logger ''no DNS config provided'' (call ReadConfig n))"
  using assms by (auto simp: updateResolverConfig_def configReader_def)

section \<open>Facts about hostnames that share a name\<close>

lemma no_alias_ofD:
  "no_alias_of d m h \<Longrightarrow> h' \<in> set (map fst m) \<Longrightarrow> h' \<noteq> h \<Longrightarrow> ToFQDN d h' = ToFQDN d h \<Longrightarrow>
   map_of m h' = Some []"
  by (auto simp: no_alias_of_def list_all_iff)

lemma no_aliasD:
  "no_alias d m \<Longrightarrow> map_of m h = Some ips \<Longrightarrow> ips \<noteq> [] \<Longrightarrow> no_alias_of d m h"
proof -
  assume na: "no_alias d m" and h: "map_of m h = Some ips" and ne: "ips \<noteq> []"
  from h have "h \<in> set (map fst m)"
    by (metis map_of_eq_None_iff option.distinct(1) set_map)
  with na have "map_of m h = Some [] \<or> no_alias_of d m h"
    by (auto simp: no_alias_def list_all_iff)
  with h ne show ?thesis by simp
qed

lemma hostsLoop_valid:
  assumes "list_all (entry_ok d) m"
  shows "\<exists>H'. hostsLoop d m order H = Inr H'"
proof -
  have "\<not> (\<exists>h\<in>set order. \<exists>ips. map_of m h = Some ips \<and>
        ((\<exists>e. ToFQDN d h = Inl e) \<or> (\<exists>ip\<in>set ips. \<exists>e. ParseAddr d ip = Inl e)))"
  proof
    assume "\<exists>h\<in>set order. \<exists>ips. map_of m h = Some ips \<and>
        ((\<exists>e. ToFQDN d h = Inl e) \<or> (\<exists>ip\<in>set ips. \<exists>e. ParseAddr d ip = Inl e))"
    then obtain h ips where h: "map_of m h = Some ips"
      and b: "(\<exists>e. ToFQDN d h = Inl e) \<or> (\<exists>ip\<in>set ips. \<exists>e. ParseAddr d ip = Inl e)"
      by blast
    from h have "(h, ips) \<in> set m" by (rule map_of_SomeD)
    with assms have "entry_ok d (h, ips)" by (simp add: list_all_iff)
    then have "\<not> isl (ToFQDN d h)" and "\<forall>ip\<in>set ips. \<not> isl (ParseAddr d ip)"
      by (simp_all add: entry_ok_def list_all_iff)
    with b show False by auto
  qed
  then have "\<not> (\<exists>e. hostsLoop d m order H = Inl e)"
    unfolding hostsLoop_Inl_iff .
  then show ?thesis by (cases "hostsLoop d m order H") auto
qed

lemma hostsLoop_writer_no_alias:
  assumes loop: "hostsLoop d m order H = Inr H'" and ok: "range_ok m order"
    and h: "map_of m h = Some ips" and ne: "ips \<noteq> []" and na: "no_alias_of d m h"
  shows "\<exists>fqdn a. ToFQDN d h = Inr fqdn \<and> ParseAddr d (last ips) = Inr a \<and> H' fqdn = Some [a]"
proof -
  from h have hm: "h \<in> set (map fst m)"
    by (metis map_of_eq_None_iff option.distinct(1) set_map)
  then have ho: "h \<in> set order" using ok by (simp add: range_ok_def)
  have "\<not> (\<exists>e. hostsLoop d m order H = Inl e)" using loop by simp
  then have "\<not> (\<exists>e. ToFQDN d h = Inl e)"
    unfolding hostsLoop_Inl_iff using ho h by blast
  then obtain fqdn where fq: "ToFQDN d h = Inr fqdn" by (cases "ToFQDN d h") auto
  have others: "\<forall>h'\<in>set order. h' \<noteq> h \<longrightarrow> ToFQDN d h' = Inr fqdn \<longrightarrow>
           map_of m h' = None \<or> map_of m h' = Some []"
    using no_alias_ofD [OF na] ok fq by (simp add: range_ok_def)
  from ok have "distinct order" by (simp add: range_ok_def)
  from hostsLoop_writer [OF loop this ho h ne fq others] fq show ?thesis by blast
qed

lemma hostsLoop_order_irrelevant:
  assumes l1: "hostsLoop d m o1 H = Inr H1" and ok1: "range_ok m o1" and ok2: "range_ok m o2"
    and na: "no_alias d m"
  shows "hostsLoop d m o2 H = Inr H1"
proof -
  have same: "set o2 = set o1" using ok1 ok2 by (simp add: range_ok_def)
  have "\<not> (\<exists>e. hostsLoop d m o1 H = Inl e)" using l1 by simp
  then have "\<not> (\<exists>e. hostsLoop d m o2 H = Inl e)"
    unfolding hostsLoop_Inl_iff same .
  then obtain H2 where l2: "hostsLoop d m o2 H = Inr H2"
    by (cases "hostsLoop d m o2 H") auto
  have "H2 fq = H1 fq" for fq
  proof (cases "\<exists>h\<in>set o1. \<exists>ips. map_of m h = Some ips \<and> ips \<noteq> [] \<and> ToFQDN d h = Inr fq")
    case True
    then obtain h ips where h: "map_of m h = Some ips" and ne: "ips \<noteq> []"
      and fq: "ToFQDN d h = Inr fq" by blast
    from no_aliasD [OF na h ne] have nah: "no_alias_of d m h" .
    from hostsLoop_writer_no_alias [OF l1 ok1 h ne nah] fq
    obtain a1 where "ParseAddr d (last ips) = Inr a1" "H1 fq = Some [a1]" by auto
    moreover from hostsLoop_writer_no_alias [OF l2 ok2 h ne nah] fq
    obtain a2 where "ParseAddr d (last ips) = Inr a2" "H2 fq = Some [a2]" by auto
    ultimately show ?thesis by simp
  next
    case False
    then have u1: "\<forall>h\<in>set o1. ToFQDN d h = Inr fq \<longrightarrow> map_of m h = None \<or> map_of m h = Some []"
      by (metis not_None_eq)
    then have u2: "\<forall>h\<in>set o2. ToFQDN d h = Inr fq \<longrightarrow> map_of m h = None \<or> map_of m h = Some []"
      using same by simp
    from hostsLoop_untouched [OF l1 u1] hostsLoop_untouched [OF l2 u2] show ?thesis by simp
  qed
  then have "H2 = H1" by (rule ext)
  with l2 show ?thesis by simp
qed

section \<open>Facts about run, the watch loop and main\<close>

lemma onConfigWatcher_failed:
  assumes "fst (updateResolverConfig d i n) = Some e"
  shows "\<exists>cs. calls (onConfigWatcher d i n) =
            calls n @ Logf ''attempting to update resolver config...'' # ReadConfig # cs @
              [Logf ''error updating resolver config: %w'', CancelF,
               Logf ''successfully updated resolver config''] \<and>
          ReadConfig \<notin> set cs"
    and "ctxCancelled (onConfigWatcher d i n)"
    and "res (onConfigWatcher d i n) = res n"
proof -
  let ?n1 = "logger ''attempting to update resolver config...'' n"
  have f: "fst (updateResolverConfig d i ?n1) = Some e"
    using assms updateResolverConfig_error_indep [of d i ?n1 n] by simp
  then obtain n2 where u: "updateResolverConfig d i ?n1 = (Some e, n2)"
    by (cases "updateResolverConfig d i ?n1") simp
  from updateResolverConfig_calls [of d i ?n1] u obtain cs where
    cs: "calls n2 = calls ?n1 @ ReadConfig # cs" "ReadConfig \<notin> set cs" by auto
  have r: "res n2 = res n"
    using updateResolverConfig_error_keeps_res [OF f] u by simp
  show "\<exists>cs. calls (onConfigWatcher d i n) =
            calls n @ Logf ''attempting to update resolver config...'' # ReadConfig # cs @
              [Logf ''error updating resolver config: %w'', CancelF,
               Logf ''successfully updated resolver config''] \<and>
          ReadConfig \<notin> set cs"
    using u cs by (simp add: onConfigWatcher_def)
  show "ctxCancelled (onConfigWatcher d i n)"
    using u by (simp add: onConfigWatcher_def)
  show "res (onConfigWatcher d i n) = res n"
    using u r by (simp add: onConfigWatcher_def)
qed

lemma watchLoop_Exited_iff:
  "fst (watchLoop d sched n) = Exited \<longleftrightarrow> CtxDone \<in> set sched"
proof (induction sched arbitrary: n)
  case Nil
  then show ?case by simp
next
  case (Cons s sched)
  then show ?case by (cases s) simp_all
qed

lemma run_calls:
  "\<exists>cs. calls (snd (run d i n)) =
          calls n @ Logf ''setting initial resolver config'' # ReadConfig # cs \<and>
        ReadConfig \<notin> set cs \<and> ListenUDP \<notin> set cs"
proof -
  let ?n1 = "logger ''setting initial resolver config'' n"
  obtain eo n2 where u: "updateResolverConfig d i ?n1 = (eo, n2)"
    by (cases "updateResolverConfig d i ?n1")
  from updateResolverConfig_calls [of d i ?n1] u obtain cs where
    "calls n2 = calls ?n1 @ ReadConfig # cs" "ReadConfig \<notin> set cs" "ListenUDP \<notin> set cs"
    by auto
  then show ?thesis using u by (cases eo) (simp_all add: run_def)
qed

lemma run_failed:
  assumes "fst (updateResolverConfig d i n) = Some e"
  shows "fst (run d i n') = Some (Wrapf ''error updating resolver config: %w'' e)"
    and "\<forall>g. Go g \<notin> set (newCalls n' (snd (run d i n')))"
proof -
  let ?n1 = "logger ''setting initial resolver config'' n'"
  have f: "fst (updateResolverConfig d i ?n1) = Some e"
    using assms updateResolverConfig_error_indep [of d i ?n1 n] by simp
  then obtain n2 where u: "updateResolverConfig d i ?n1 = (Some e, n2)"
    by (cases "updateResolverConfig d i ?n1") simp
  show "fst (run d i n') = Some (Wrapf ''error updating resolver config: %w'' e)"
    using u by (simp add: run_def)
  from updateResolverConfig_calls [of d i ?n1] u obtain cs where
    cs: "calls n2 = calls ?n1 @ ReadConfig # cs" "\<forall>g. Go g \<notin> set cs"
    by auto
  have "calls (snd (run d i n')) = calls n' @ Logf ''setting initial resolver config'' # ReadConfig # cs"
    using u cs by (simp add: run_def)
  then have "newCalls n' (snd (run d i n')) = Logf ''setting initial resolver config'' # ReadConfig # cs"
    by simp
  then show "\<forall>g. Go g \<notin> set (newCalls n' (snd (run d i n')))"
    using cs(2) by simp
qed

lemma main_run_failed:
  assumes "fst (updateResolverConfig d (initialReload mi) n) = Some e"
  shows "fst (main d mi n) = Exit1 \<and> ListenUDP \<notin> set (newCalls n (snd (main d mi n)))"
proof (cases "newWatcherErr mi")
  case (Some err)
  then show ?thesis by (simp add: main_def newCalls_def)
next
  case None
  note nw = this
  show ?thesis
  proof (cases "watcherAddErr mi")
    case (Some err)
    then show ?thesis using nw by (simp add: main_def newCalls_def)
  next
    case None
    let ?n2 = "call WatcherAdd (call (Go ''file watch'') (call NewWatcher n))"
    from run_failed(1) [OF assms, of ?n2] obtain n3 where
      r: "run d (initialReload mi) ?n2 = (Some (Wrapf ''error updating resolver config: %w'' e), n3)"
      by (cases "run d (initialReload mi) ?n2") simp
    from run_calls [of d "initialReload mi" ?n2] r obtain cs where
      "calls n3 = calls ?n2 @ Logf ''setting initial resolver config'' # ReadConfig # cs"
      "ListenUDP \<notin> set cs" by auto
    then show ?thesis using nw None r by (simp add: main_def newCalls_def Let_def)
  qed
qed

section \<open>Facts about the serving process\<close>

lemma onConfigWatcher_keeps_cancelled:
  "ctxCancelled n \<Longrightarrow> ctxCancelled (onConfigWatcher d i n)"
proof -
  assume c: "ctxCancelled n"
  let ?n1 = "logger ''attempting to update resolver config...'' n"
  obtain eo n2 where u: "updateResolverConfig d i ?n1 = (eo, n2)"
    by (cases "updateResolverConfig d i ?n1")
  from updateResolverConfig_calls [of d i ?n1] u c have "ctxCancelled n2" by auto
  then show ?thesis using u by (cases eo) (simp_all add: onConfigWatcher_def)
qed

lemma watchStep_facts:
  "connClosed (watchStep d sc p) = connClosed p"
  "closeTask (watchStep d sc p) = closeTask p"
  "mainTask (watchStep d sc p) = mainTask p"
  "ctxCancelled (ns p) \<Longrightarrow> ctxCancelled (ns (watchStep d sc p))"
proof -
  show "connClosed (watchStep d sc p) = connClosed p"
    by (simp add: watchStep_def split: prod.split)
  show "closeTask (watchStep d sc p) = closeTask p"
    by (simp add: watchStep_def split: prod.split)
  show "mainTask (watchStep d sc p) = mainTask p"
    by (simp add: watchStep_def split: prod.split)
  show "ctxCancelled (ns p) \<Longrightarrow> ctxCancelled (ns (watchStep d sc p))"
    by (cases sc) (auto simp: watchStep_def onConfigWatcher_keeps_cancelled split: prod.split)
qed

lemma step_keeps_inv: "cancelled_inv p \<Longrightarrow> cancelled_inv (step d s p)"
proof (cases s)
  case (WatchSelect sc)
  then show "cancelled_inv p \<Longrightarrow> cancelled_inv (step d s p)"
    by (simp add: step_def cancelled_inv_def watchStep_facts)
next
  case CloseOnDone
  then show "cancelled_inv p \<Longrightarrow> cancelled_inv (step d s p)"
    by (auto simp: step_def cancelled_inv_def closeStep_def)
next
  case (MainRead rd)
  then show "cancelled_inv p \<Longrightarrow> cancelled_inv (step d s p)"
    by (auto simp: step_def cancelled_inv_def mainStep_def Let_def split: sum.split prod.split)
qed

lemma system_keeps_inv: "cancelled_inv p \<Longrightarrow> cancelled_inv (system d sched p)"
  by (induction sched arbitrary: p) (simp_all add: step_keeps_inv)

lemma step_keeps_closed: "connClosed p \<Longrightarrow> connClosed (step d s p)"
  by (cases s)
     (auto simp: step_def watchStep_facts closeStep_def mainStep_def Let_def
           split: sum.split prod.split)

lemma system_keeps_closed: "connClosed p \<Longrightarrow> connClosed (system d sched p)"
  by (induction sched arbitrary: p) (simp_all add: step_keeps_closed)

lemma system_ended: "mainTask p = Exited \<Longrightarrow> system d sched p = p"
  by (induction sched) (simp_all add: step_def)

lemma system_append: "system d (s1 @ s2) p = system d s2 (system d s1 p)"
  by (induction s1 arbitrary: p) simp_all

lemma close_step_closes:
  "cancelled_inv p \<Longrightarrow> mainTask p = Exited \<or> connClosed (step d CloseOnDone p)"
  by (auto simp: step_def cancelled_inv_def closeStep_def task_status.exhaust)

lemma read_on_closed_returns:
  "connClosed p \<Longrightarrow> mainTask (step d (MainRead rd) p) = Exited"
  by (simp add: step_def mainStep_def connReadMsgUDP_def)

lemma cancelled_process_ends:
  assumes "cancelled_inv p"
  shows "mainTask (system d (s1 @ CloseOnDone # s2 @ MainRead rd # s3) p) = Exited"
proof -
  let ?p1 = "system d s1 p"
  let ?p2 = "step d CloseOnDone ?p1"
  let ?p3 = "system d s2 ?p2"
  let ?p4 = "step d (MainRead rd) ?p3"
  have e: "system d (s1 @ CloseOnDone # s2 @ MainRead rd # s3) p = system d s3 ?p4"
    by (simp add: system_append)
  have i1: "cancelled_inv ?p1" using assms by (rule system_keeps_inv)
  have "mainTask ?p4 = Exited"
  proof (cases "mainTask ?p1 = Exited")
    case True
    then have "?p2 = ?p1" by (simp add: step_def)
    then have "?p3 = ?p1" using True by (simp add: system_ended)
    then show ?thesis using True by (simp add: step_def)
  next
    case False
    with close_step_closes [OF i1, of d] have "connClosed ?p2" by simp
    then have "connClosed ?p3" by (rule system_keeps_closed)
    then show ?thesis by (rule read_on_closed_returns)
  qed
  then show ?thesis unfolding e by (simp add: system_ended)
qed

lemma watchStep_signal:
  "watchTask p = Waiting \<Longrightarrow>
   watchStep d (ConfigWatcher msg ok i) p =
     p\<lparr>ns := snd (watchLoop d [ConfigWatcher msg ok i] (ns p)),
       watchTask := fst (watchLoop d [ConfigWatcher msg ok i] (ns p))\<rparr>"
  by (simp add: watchStep_def)

section \<open>Evaluating the samples\<close>


lemma sample_Unmarshal_simps:
  "sample_Unmarshal doc_foo = Inr \<lparr>dnsHosts = [(''foo.bar.ts.net.'', [''10.20.30.40''])]\<rparr>"
  "sample_Unmarshal doc_no_hosts = Inr \<lparr>dnsHosts = []\<rparr>"
  "sample_Unmarshal doc_bad_addr =
     Inr \<lparr>dnsHosts = [(''foo.bar.ts.net.'', [''10.20.30.40'']),
                       (''baz.bar.ts.net.'', [''not-an-ip''])]\<rparr>"
  "sample_Unmarshal doc_two_addrs =
     Inr \<lparr>dnsHosts = [(''foo.bar.ts.net.'', [''10.20.30.40'', ''10.40.30.20''])]\<rparr>"
  "sample_Unmarshal doc_alias =
     Inr \<lparr>dnsHosts = [(''foo.bar.ts.net'', [''10.20.30.40'', ''10.40.30.20'']),
                       (''foo.bar.ts.net.'', [''10.0.0.1''])]\<rparr>"
  "sample_Unmarshal doc_no_addrs =
     Inr \<lparr>dnsHosts = [(''foo.bar.ts.net.'', []), (''baz.bar.ts.net.'', [''10.40.30.20''])]\<rparr>"
  "sample_Unmarshal doc_alias_no_addrs =
     Inr \<lparr>dnsHosts = [(''foo.bar.ts.net'', []), (''foo.bar.ts.net.'', [''10.20.30.40''])]\<rparr>"
  "sample_Unmarshal doc_malformed = Inl (Error ''unexpected end of JSON input'')"
  "sample_Unmarshal doc_no_addrs_bad =
     Inr \<lparr>dnsHosts = [(''foo.bar.ts.net.'', []), (''baz.bar.ts.net.'', [''not-an-ip''])]\<rparr>"
  by (simp_all add: sample_Unmarshal_def doc_foo_def doc_no_hosts_def doc_bad_addr_def
      doc_two_addrs_def doc_alias_def doc_no_addrs_def doc_alias_no_addrs_def doc_malformed_def
      doc_no_addrs_bad_def)

lemma sample_deps_simps [simp]:
  "Unmarshal sample_deps = sample_Unmarshal"
  "ToFQDN sample_deps = sample_ToFQDN"
  "ParseAddr sample_deps = sample_ParseAddr"
  by (simp_all add: sample_deps_def)

lemma doc_nonempty:
  "doc_foo \<noteq> []" "doc_no_hosts \<noteq> []" "doc_bad_addr \<noteq> []" "doc_two_addrs \<noteq> []"
  "doc_alias \<noteq> []" "doc_no_addrs \<noteq> []" "doc_alias_no_addrs \<noteq> []"
  "doc_malformed \<noteq> []" "doc_no_addrs_bad \<noteq> []"
  by (simp_all add: doc_foo_def doc_no_hosts_def doc_bad_addr_def
      doc_two_addrs_def doc_alias_def doc_no_addrs_def doc_alias_no_addrs_def doc_malformed_def
      doc_no_addrs_bad_def)

lemma reads_simps [simp]:
  "readerResult (reads b order) = (Some b, None)"
  "rangeOrder (reads b order) = order"
  "readerResult reads_nothing = (None, None)"
  by (simp_all add: reads_def reads_nothing_def)

lemma update_sample:
  "b \<noteq> [] \<Longrightarrow> sample_Unmarshal b = Inr dnsCfg \<Longrightarrow>
   updateResolverConfig sample_deps (reads b order) n =
     (case hostsLoop sample_deps (dnsHosts dnsCfg) order Map.empty of
        Inl (format, err) \<Rightarrow> (Some err, logger format (afterRead dnsCfg n))
      | Inr H \<Rightarrow> (None, resSetConfig \<lparr>Hosts = H, LocalDomains = tsnetRootDomains\<rparr>
                        (afterRead dnsCfg n)))"
  by (simp add: updateResolverConfig_def configReader_def afterRead_def Let_def split: sum.split prod.split)

lemma update_doc_foo:
  "updateResolverConfig sample_deps (reads doc_foo [''foo.bar.ts.net.'']) n =
     (None, resSetConfig \<lparr>Hosts = [''foo.bar.ts.net.'' \<mapsto> [[10, 20, 30, 40]]],
                          LocalDomains = tsnetRootDomains\<rparr>
              (afterRead \<lparr>dnsHosts = [(''foo.bar.ts.net.'', [''10.20.30.40''])]\<rparr> n))"
  by (simp add: update_sample [OF doc_nonempty(1) sample_Unmarshal_simps(1)]
      sample_ToFQDN_def sample_ParseAddr_def)

lemma sample_values:
  "sample_ToFQDN ''foo.bar.ts.net'' = Inr ''foo.bar.ts.net.''"
  "sample_ToFQDN ''foo.bar.ts.net.'' = Inr ''foo.bar.ts.net.''"
  "sample_ToFQDN ''baz.bar.ts.net.'' = Inr ''baz.bar.ts.net.''"
  "sample_ParseAddr ''10.20.30.40'' = Inr [10, 20, 30, 40]"
  "sample_ParseAddr ''10.40.30.20'' = Inr [10, 40, 30, 20]"
  "sample_ParseAddr ''10.0.0.1'' = Inr [10, 0, 0, 1]"
  by (simp_all add: sample_ToFQDN_def sample_ParseAddr_def)

lemma update_doc_alias:
  "updateResolverConfig sample_deps (reads doc_alias [''foo.bar.ts.net'', ''foo.bar.ts.net.'']) n =
     (None, resSetConfig \<lparr>Hosts = [''foo.bar.ts.net.'' \<mapsto> [[10, 0, 0, 1]]],
                          LocalDomains = tsnetRootDomains\<rparr>
              (call ReadConfig n))"
  "updateResolverConfig sample_deps (reads doc_alias [''foo.bar.ts.net.'', ''foo.bar.ts.net'']) n =
     (None, resSetConfig \<lparr>Hosts = [''foo.bar.ts.net.'' \<mapsto> [[10, 40, 30, 20]]],
                          LocalDomains = tsnetRootDomains\<rparr>
              (call ReadConfig n))"
  by (simp_all add: update_sample [OF doc_nonempty(5) sample_Unmarshal_simps(5)]
      sample_values afterRead_def logIfNoHosts_def)

lemma update_malformed:
  "updateResolverConfig sample_deps (reads doc_malformed []) n =
     (Some (Error ''unexpected end of JSON input''), logger ''error unmarshaling json: %v'' (call ReadConfig n))"
  by (simp add: updateResolverConfig_def configReader_def sample_Unmarshal_simps doc_nonempty)

section \<open>The claims\<close>

text \<open>
  Claim C1. When the reader returns a non-empty document that \<^verbatim>\<open>json.Unmarshal\<close> rejects, or
  one in which some hostname has no normal form or some address of some hostname does not
  parse, \<^verbatim>\<open>updateResolverConfig\<close> returns an error, makes no call of \<^verbatim>\<open>SetConfig\<close>, and
  leaves the resolver with the configuration it had: nothing of the failing input is
  applied, whatever the order of the iteration.
\<close>

theorem C1_invalid_config_never_applied:
  assumes rd: "readerResult i = (Some b, None)" and ne: "b \<noteq> []"
    and bad: "(\<exists>e. Unmarshal d b = Inl e) \<or>
       (\<exists>dnsCfg. Unmarshal d b = Inr dnsCfg \<and> range_ok (dnsHosts dnsCfg) (rangeOrder i) \<and>
          (\<exists>h ips. map_of (dnsHosts dnsCfg) h = Some ips \<and>
             ((\<exists>e. ToFQDN d h = Inl e) \<or> (\<exists>ip\<in>set ips. \<exists>e. ParseAddr d ip = Inl e))))"
  shows "(\<exists>e. fst (updateResolverConfig d i n) = Some e) \<and>
         res (snd (updateResolverConfig d i n)) = res n \<and>
         (\<forall>c. SetConfig c \<notin> set (newCalls n (snd (updateResolverConfig d i n))))"
proof (cases rule: updateResolverConfig_cases [of i d n])
  case (ReadError bs e)
  then show ?thesis using rd by simp
next
  case (NoConfig bs)
  then show ?thesis using rd ne by auto
next
  case (BadJSON b' e)
  then show ?thesis by simp
next
  case (BadEntry b' dnsCfg format e)
  then show ?thesis by simp
next
  case (Applied b' dnsCfg H)
  have "\<not> (\<exists>e. hostsLoop d (dnsHosts dnsCfg) (rangeOrder i) Map.empty = Inl e)"
    using Applied(4) by simp
  then have none_bad: "\<not> (\<exists>h\<in>set (rangeOrder i). \<exists>ips. map_of (dnsHosts dnsCfg) h = Some ips \<and>
        ((\<exists>e. ToFQDN d h = Inl e) \<or> (\<exists>ip\<in>set ips. \<exists>e. ParseAddr d ip = Inl e)))"
    unfolding hostsLoop_Inl_iff .
  have um: "Unmarshal d b = Inr dnsCfg" using Applied(1,3) rd by simp
  with bad have "range_ok (dnsHosts dnsCfg) (rangeOrder i) \<and>
          (\<exists>h ips. map_of (dnsHosts dnsCfg) h = Some ips \<and>
             ((\<exists>e. ToFQDN d h = Inl e) \<or> (\<exists>ip\<in>set ips. \<exists>e. ParseAddr d ip = Inl e)))"
    by simp
  then obtain h ips where ok: "range_ok (dnsHosts dnsCfg) (rangeOrder i)"
    and h: "map_of (dnsHosts dnsCfg) h = Some ips"
    and hb: "(\<exists>e. ToFQDN d h = Inl e) \<or> (\<exists>ip\<in>set ips. \<exists>e. ParseAddr d ip = Inl e)"
    by blast
  from h have "h \<in> set (map fst (dnsHosts dnsCfg))"
    by (metis map_of_eq_None_iff option.distinct(1) set_map)
  then have "h \<in> set (rangeOrder i)" using ok by (simp add: range_ok_def)
  with none_bad h hb show ?thesis by blast
qed

text \<open>
  The sample: one good entry and one with the address \<^verbatim>\<open>not-an-ip\<close>, the good one visited
  first.
\<close>

theorem C1_invalid_config_never_applied_witness:
  "sample_ParseAddr ''not-an-ip'' = Inl (Error ''unable to parse IP'') \<and>
   (\<exists>e. fst (updateResolverConfig sample_deps
            (reads doc_bad_addr [''foo.bar.ts.net.'', ''baz.bar.ts.net.'']) ns0) = Some e) \<and>
   res (snd (updateResolverConfig sample_deps
            (reads doc_bad_addr [''foo.bar.ts.net.'', ''baz.bar.ts.net.'']) ns0)) = res ns0 \<and>
   (\<forall>c. SetConfig c \<notin> set (newCalls ns0 (snd (updateResolverConfig sample_deps
            (reads doc_bad_addr [''foo.bar.ts.net.'', ''baz.bar.ts.net.'']) ns0))))"
proof -
  let ?i = "reads doc_bad_addr [''foo.bar.ts.net.'', ''baz.bar.ts.net.'']"
  have p: "sample_ParseAddr ''not-an-ip'' = Inl (Error ''unable to parse IP'')"
    by (simp add: sample_ParseAddr_def)
  have rd: "readerResult ?i = (Some doc_bad_addr, None)" by simp
  have bad: "(\<exists>e. Unmarshal sample_deps doc_bad_addr = Inl e) \<or>
       (\<exists>dnsCfg. Unmarshal sample_deps doc_bad_addr = Inr dnsCfg \<and>
          range_ok (dnsHosts dnsCfg) (rangeOrder ?i) \<and>
          (\<exists>h ips. map_of (dnsHosts dnsCfg) h = Some ips \<and>
             ((\<exists>e. ToFQDN sample_deps h = Inl e) \<or>
              (\<exists>ip\<in>set ips. \<exists>e. ParseAddr sample_deps ip = Inl e))))"
  proof -
    let ?m = "[(''foo.bar.ts.net.'', [''10.20.30.40'']), (''baz.bar.ts.net.'', [''not-an-ip''])]"
    have um: "Unmarshal sample_deps doc_bad_addr = Inr \<lparr>dnsHosts = ?m\<rparr>"
      by (simp add: sample_Unmarshal_simps)
    have ok: "range_ok (dnsHosts \<lparr>dnsHosts = ?m\<rparr>) (rangeOrder ?i)"
      by (auto simp: range_ok_def)
    have h: "map_of (dnsHosts \<lparr>dnsHosts = ?m\<rparr>) ''baz.bar.ts.net.'' = Some [''not-an-ip'']"
      by simp
    have "\<exists>ip\<in>set [''not-an-ip'']. \<exists>e. ParseAddr sample_deps ip = Inl e"
      using p by simp
    with um ok h show ?thesis by blast
  qed
  from C1_invalid_config_never_applied [OF rd doc_nonempty(3) bad, of ns0] p
  show ?thesis by simp
qed

text \<open>
  Claim C2, as amended. When the reader returns a nil or zero-length slice and no error,
  \<^verbatim>\<open>updateResolverConfig\<close> returns nil after logging that no configuration was provided;
  it builds no configuration and does not call \<^verbatim>\<open>SetConfig\<close>, so the resolver keeps the
  configuration it had.
\<close>

theorem C2_no_config_applies_nothing:
  assumes "readerResult i = (bs, None)" and "bs = None \<or> bs = Some []"
  shows "fst (updateResolverConfig d i n) = None \<and>
         res (snd (updateResolverConfig d i n)) = res n \<and>
         newCalls n (snd (updateResolverConfig d i n)) =
           [ReadConfig, Logf ''no DNS config provided'']"
  using assms by (auto simp: updateResolverConfig_def configReader_def)

text \<open>A sample for claim C2.\<close>

theorem C2_no_config_applies_nothing_witness:
  "readerResult reads_nothing = (None, None) \<and>
   fst (updateResolverConfig sample_deps reads_nothing ns0) = None \<and>
   res (snd (updateResolverConfig sample_deps reads_nothing ns0)) = res ns0 \<and>
   newCalls ns0 (snd (updateResolverConfig sample_deps reads_nothing ns0)) =
     [ReadConfig, Logf ''no DNS config provided'']"
  using C2_no_config_applies_nothing [of reads_nothing None sample_deps ns0] by simp

text \<open>
  The claim as stated fails: after a reload of the document of the test, a reload that finds
  no file returns nil and the resolver still answers for \<^verbatim>\<open>foo.bar.ts.net.\<close>; the only calls
  are the read and the log.
\<close>

theorem C2_no_config_counterexample:
  "fst (updateResolverConfig sample_deps reads_nothing
         (snd (updateResolverConfig sample_deps (reads doc_foo [''foo.bar.ts.net.'']) ns0))) = None \<and>
   Hosts (res (snd (updateResolverConfig sample_deps reads_nothing
         (snd (updateResolverConfig sample_deps (reads doc_foo [''foo.bar.ts.net.'']) ns0)))))
      ''foo.bar.ts.net.'' = Some [[10, 20, 30, 40]] \<and>
   newCalls (snd (updateResolverConfig sample_deps (reads doc_foo [''foo.bar.ts.net.'']) ns0))
     (snd (updateResolverConfig sample_deps reads_nothing
         (snd (updateResolverConfig sample_deps (reads doc_foo [''foo.bar.ts.net.'']) ns0)))) =
     [ReadConfig, Logf ''no DNS config provided'']"
  by (simp add: update_doc_foo updateResolverConfig_def [of sample_deps reads_nothing]
      configReader_def)

text \<open>
  Claim C3, as amended. In a valid configuration, a hostname with two or more addresses is
  published under its normal form with the singleton list of its last address, provided that
  no other hostname with addresses has the same normal form.
\<close>

theorem C3_last_address_is_published:
  assumes rd: "readerResult i = (Some b, None)" and ne: "b \<noteq> []"
    and um: "Unmarshal d b = Inr dnsCfg"
    and ok: "range_ok (dnsHosts dnsCfg) (rangeOrder i)"
    and valid: "list_all (entry_ok d) (dnsHosts dnsCfg)"
    and h: "map_of (dnsHosts dnsCfg) h = Some ips" and two: "2 \<le> length ips"
    and na: "no_alias_of d (dnsHosts dnsCfg) h"
  shows "fst (updateResolverConfig d i n) = None \<and>
         SetConfig (res (snd (updateResolverConfig d i n)))
           \<in> set (newCalls n (snd (updateResolverConfig d i n))) \<and>
         (\<exists>fqdn a. ToFQDN d h = Inr fqdn \<and> ParseAddr d (last ips) = Inr a \<and>
            Hosts (res (snd (updateResolverConfig d i n))) fqdn = Some [a])"
proof -
  from hostsLoop_valid [OF valid] obtain H
    where loop: "hostsLoop d (dnsHosts dnsCfg) (rangeOrder i) Map.empty = Inr H" by blast
  from two have "ips \<noteq> []" by auto
  from hostsLoop_writer_no_alias [OF loop ok h this na]
  show ?thesis using update_applied_facts [OF rd ne um loop, of n] by simp
qed

text \<open>A sample for claim C3.\<close>

theorem C3_last_address_is_published_witness:
  "sample_ToFQDN ''foo.bar.ts.net.'' = Inr ''foo.bar.ts.net.'' \<and>
   sample_ParseAddr ''10.40.30.20'' = Inr [10, 40, 30, 20] \<and>
   fst (updateResolverConfig sample_deps (reads doc_two_addrs [''foo.bar.ts.net.'']) ns0) = None \<and>
   Hosts (res (snd (updateResolverConfig sample_deps (reads doc_two_addrs [''foo.bar.ts.net.'']) ns0)))
     ''foo.bar.ts.net.'' = Some [[10, 40, 30, 20]]"
proof -
  let ?i = "reads doc_two_addrs [''foo.bar.ts.net.'']"
  let ?m = "[(''foo.bar.ts.net.'', [''10.20.30.40'', ''10.40.30.20''])]"
  have rd: "readerResult ?i = (Some doc_two_addrs, None)" by simp
  have um: "Unmarshal sample_deps doc_two_addrs = Inr \<lparr>dnsHosts = ?m\<rparr>"
    by (simp add: sample_Unmarshal_simps)
  have ok: "range_ok (dnsHosts \<lparr>dnsHosts = ?m\<rparr>) (rangeOrder ?i)"
    by (simp add: range_ok_def)
  have valid: "list_all (entry_ok sample_deps) (dnsHosts \<lparr>dnsHosts = ?m\<rparr>)"
    by (simp add: entry_ok_def sample_values)
  have h: "map_of (dnsHosts \<lparr>dnsHosts = ?m\<rparr>) ''foo.bar.ts.net.'' =
      Some [''10.20.30.40'', ''10.40.30.20'']" by simp
  have two: "2 \<le> length [''10.20.30.40'', ''10.40.30.20'']" by simp
  have na: "no_alias_of sample_deps (dnsHosts \<lparr>dnsHosts = ?m\<rparr>) ''foo.bar.ts.net.''"
    by (simp add: no_alias_of_def)
  from C3_last_address_is_published [OF rd doc_nonempty(4) um ok valid h two na, of ns0]
  show ?thesis by (simp add: sample_values)
qed

text \<open>
  The claim as stated fails when two hostnames share a normal form: with
  \<^verbatim>\<open>foo.bar.ts.net\<close> visited before \<^verbatim>\<open>foo.bar.ts.net.\<close>, the published address is the one of
  the second hostname, not the last address of the first.
\<close>

theorem C3_alias_counterexample:
  "sample_Unmarshal doc_alias =
     Inr \<lparr>dnsHosts = [(''foo.bar.ts.net'', [''10.20.30.40'', ''10.40.30.20'']),
                       (''foo.bar.ts.net.'', [''10.0.0.1''])]\<rparr> \<and>
   sample_ToFQDN ''foo.bar.ts.net'' = Inr ''foo.bar.ts.net.'' \<and>
   sample_ParseAddr ''10.40.30.20'' = Inr [10, 40, 30, 20] \<and>
   fst (updateResolverConfig sample_deps
          (reads doc_alias [''foo.bar.ts.net'', ''foo.bar.ts.net.'']) ns0) = None \<and>
   Hosts (res (snd (updateResolverConfig sample_deps
          (reads doc_alias [''foo.bar.ts.net'', ''foo.bar.ts.net.'']) ns0))) ''foo.bar.ts.net.''
     = Some [[10, 0, 0, 1]]"
  by (simp add: update_doc_alias sample_Unmarshal_simps sample_values)

text \<open>
  Claim C4. Whenever a reload calls \<^verbatim>\<open>SetConfig\<close>, it has succeeded, the configuration passed
  is the one the resolver then holds, and its \<^verbatim>\<open>LocalDomains\<close> is the built-in list
  \<^verbatim>\<open>ts.net\<close>, \<^verbatim>\<open>ts.net.\<close> whatever the input.
\<close>

theorem C4_published_LocalDomains_fixed:
  assumes "SetConfig c \<in> set (newCalls n (snd (updateResolverConfig d i n)))"
  shows "fst (updateResolverConfig d i n) = None \<and>
         res (snd (updateResolverConfig d i n)) = c \<and>
         LocalDomains c = tsnetRootDomains \<and>
         LocalDomains c = [''ts.net'', ''ts.net.'']"
  using assms
  by (cases rule: updateResolverConfig_cases [of i d n])
     (auto simp: tsnetRootDomains_def split: if_splits)

text \<open>The sample: a document with no hosts; the published map is empty, the domains are not.\<close>

theorem C4_published_LocalDomains_fixed_witness:
  "SetConfig \<lparr>Hosts = Map.empty, LocalDomains = [''ts.net'', ''ts.net.'']\<rparr>
     \<in> set (newCalls ns0 (snd (updateResolverConfig sample_deps (reads doc_no_hosts []) ns0))) \<and>
   fst (updateResolverConfig sample_deps (reads doc_no_hosts []) ns0) = None \<and>
   Hosts (res (snd (updateResolverConfig sample_deps (reads doc_no_hosts []) ns0))) = Map.empty \<and>
   LocalDomains (res (snd (updateResolverConfig sample_deps (reads doc_no_hosts []) ns0)))
     = [''ts.net'', ''ts.net.'']"
proof -
  have pub: "SetConfig \<lparr>Hosts = Map.empty, LocalDomains = [''ts.net'', ''ts.net.'']\<rparr>
     \<in> set (newCalls ns0 (snd (updateResolverConfig sample_deps (reads doc_no_hosts []) ns0)))"
    by (simp add: update_sample [OF doc_nonempty(2) sample_Unmarshal_simps(2)]
        tsnetRootDomains_def)
  from C4_published_LocalDomains_fixed [OF pub] pub show ?thesis by simp
qed

text \<open>
  Claim C5. \<^verbatim>\<open>run\<close> calls the reader exactly once before it returns. When that reload fails,
  \<^verbatim>\<open>run\<close> returns the wrapped error without starting the watch loop, and \<^verbatim>\<open>main\<close> ends the
  process without having called \<^verbatim>\<open>net.ListenUDP\<close>.
\<close>

theorem C5_failed_initial_reload_is_fatal:
  "count_list (newCalls n (snd (run d (initialReload mi) n))) ReadConfig = 1 \<and>
   (fst (updateResolverConfig d (initialReload mi) n) = Some e \<longrightarrow>
      fst (run d (initialReload mi) n) = Some (Wrapf ''error updating resolver config: %w'' e) \<and>
      Go ''watch loop'' \<notin> set (newCalls n (snd (run d (initialReload mi) n))) \<and>
      fst (main d mi n) = Exit1 \<and>
      ListenUDP \<notin> set (newCalls n (snd (main d mi n))))"
proof -
  from run_calls [of d "initialReload mi" n] obtain cs where
    "calls (snd (run d (initialReload mi) n)) =
       calls n @ Logf ''setting initial resolver config'' # ReadConfig # cs"
    and nr: "ReadConfig \<notin> set cs" by blast
  then have "newCalls n (snd (run d (initialReload mi) n)) =
       Logf ''setting initial resolver config'' # ReadConfig # cs" by simp
  then have one: "count_list (newCalls n (snd (run d (initialReload mi) n))) ReadConfig = 1"
    using nr by (simp add: count_list_0_iff)
  show ?thesis
    using one run_failed [of d "initialReload mi" n e n] main_run_failed [of d mi n e]
    by simp
qed

text \<open>A sample for claim C5.\<close>

theorem C5_failed_initial_reload_is_fatal_witness:
  "fst (updateResolverConfig sample_deps (reads doc_malformed []) ns0) = Some (Error ''unexpected end of JSON input'') \<and>
   fst (run sample_deps (reads doc_malformed []) ns0) =
     Some (Wrapf ''error updating resolver config: %w'' (Error ''unexpected end of JSON input'')) \<and>
   fst (main sample_deps sample_main_input ns0) = Exit1 \<and>
   ListenUDP \<notin> set (newCalls ns0 (snd (main sample_deps sample_main_input ns0))) \<and>
   calls (snd (main sample_deps sample_main_input ns0)) =
     [NewWatcher, Go ''file watch'', WatcherAdd, Logf ''setting initial resolver config'',
      ReadConfig, Logf ''error unmarshaling json: %v'', Fatalf ''error running nameserver: %v'']"
proof -
  have i: "initialReload sample_main_input = reads doc_malformed []"
    by (simp add: sample_main_input_def)
  have c: "calls (snd (main sample_deps sample_main_input ns0)) =
     [NewWatcher, Go ''file watch'', WatcherAdd, Logf ''setting initial resolver config'',
      ReadConfig, Logf ''error unmarshaling json: %v'', Fatalf ''error running nameserver: %v'']"
    by (simp add: main_def run_def update_malformed sample_main_input_def ns0_def)
  show ?thesis
    using C5_failed_initial_reload_is_fatal
      [of ns0 sample_deps sample_main_input "Error ''unexpected end of JSON input''"] i c
    by (simp add: update_malformed)
qed

text \<open>
  Claim C6. In a serving process, an iteration of the watch loop that receives a signal and
  whose reload fails calls the cancel function: the reader was called once, the resolver
  keeps its configuration and the context is cancelled. The cancellation ends the process:
  in every schedule of the three tasks in which, afterwards, the closing task takes its step
  and \<^verbatim>\<open>main\<close> then returns from a read, \<^verbatim>\<open>main\<close> has returned, whatever steps the tasks take
  in between.
\<close>

theorem C6_failed_reload_cancels:
  assumes fail: "fst (updateResolverConfig d i (ns p)) = Some e"
    and running: "watchTask p = Waiting" and serving: "mainTask p = Waiting"
    and closer: "closeTask p = Waiting \<or> connClosed p"
  shows "fst (watchLoop d [ConfigWatcher msg ok i] (ns p)) = Waiting \<and>
         ctxCancelled (snd (watchLoop d [ConfigWatcher msg ok i] (ns p))) \<and>
         CancelF \<in> set (newCalls (ns p) (snd (watchLoop d [ConfigWatcher msg ok i] (ns p)))) \<and>
         count_list (newCalls (ns p) (snd (watchLoop d [ConfigWatcher msg ok i] (ns p))))
           ReadConfig = 1 \<and>
         res (snd (watchLoop d [ConfigWatcher msg ok i] (ns p))) = res (ns p) \<and>
         ns (step d (WatchSelect (ConfigWatcher msg ok i)) p) =
           snd (watchLoop d [ConfigWatcher msg ok i] (ns p)) \<and>
         mainTask (system d (s1 @ CloseOnDone # s2 @ MainRead rd # s3)
                     (step d (WatchSelect (ConfigWatcher msg ok i)) p)) = Exited"
proof -
  let ?n = "ns p"
  from onConfigWatcher_failed(1) [OF fail] obtain cs where
    cs: "calls (onConfigWatcher d i ?n) =
            calls ?n @ Logf ''attempting to update resolver config...'' # ReadConfig # cs @
              [Logf ''error updating resolver config: %w'', CancelF,
               Logf ''successfully updated resolver config'']"
    and nr: "ReadConfig \<notin> set cs" by blast
  have nc: "newCalls ?n (onConfigWatcher d i ?n) =
          Logf ''attempting to update resolver config...'' # ReadConfig # cs @
              [Logf ''error updating resolver config: %w'', CancelF,
               Logf ''successfully updated resolver config'']"
    using cs by simp
  note c = onConfigWatcher_failed(2) [OF fail]
  let ?p1 = "step d (WatchSelect (ConfigWatcher msg ok i)) p"
  have nsp: "ns ?p1 = snd (watchLoop d [ConfigWatcher msg ok i] (ns p))"
    using running serving by (simp add: step_def watchStep_signal)
  have "cancelled_inv ?p1"
    using running serving closer c by (simp add: step_def watchStep_signal cancelled_inv_def)
  then have ended: "mainTask (system d (s1 @ CloseOnDone # s2 @ MainRead rd # s3) ?p1) = Exited"
    by (rule cancelled_process_ends)
  show ?thesis
    using nc nr c onConfigWatcher_failed(3) [OF fail] nsp ended
    by (simp add: count_list_0_iff)
qed

text \<open>
  A sample for claim C6: a truncated document arrives while the process serves; the closing
  task closes the connection and the next read of \<^verbatim>\<open>main\<close> fails.
\<close>

theorem C6_failed_reload_cancels_witness:
  "fst (updateResolverConfig sample_deps (reads doc_malformed []) ns0)
     = Some (Error ''unexpected end of JSON input'') \<and>
   ctxCancelled (ns (step sample_deps
     (WatchSelect (ConfigWatcher ''config update'' True (reads doc_malformed []))) (serving ns0))) \<and>
   res (ns (step sample_deps
     (WatchSelect (ConfigWatcher ''config update'' True (reads doc_malformed []))) (serving ns0)))
     = res ns0 \<and>
   mainTask (system sample_deps [CloseOnDone, MainRead (Inr (''query'', ''10.40.30.20:0''))]
     (step sample_deps
        (WatchSelect (ConfigWatcher ''config update'' True (reads doc_malformed []))) (serving ns0)))
     = Exited \<and>
   calls (ns (system sample_deps [CloseOnDone, MainRead (Inr (''query'', ''10.40.30.20:0''))]
     (step sample_deps
        (WatchSelect (ConfigWatcher ''config update'' True (reads doc_malformed []))) (serving ns0))))
     = [Logf ''attempting to update resolver config...'', ReadConfig,
        Logf ''error unmarshaling json: %v'', Logf ''error updating resolver config: %w'',
        CancelF, Logf ''successfully updated resolver config'', ConnClose,
        Logf ''parsing a query'', ReadMsgUDP, Logf ''error reading UDP message: %v'',
        WatcherClose, CancelF]"
proof -
  have n: "ns (serving ns0) = ns0" by (simp add: serving_def)
  have f: "fst (updateResolverConfig sample_deps (reads doc_malformed []) (ns (serving ns0)))
      = Some (Error ''unexpected end of JSON input'')"
    by (simp add: n update_malformed)
  have w: "watchTask (serving ns0) = Waiting" and m: "mainTask (serving ns0) = Waiting"
    and c: "closeTask (serving ns0) = Waiting \<or> connClosed (serving ns0)"
    by (simp_all add: serving_def)
  have trace: "calls (ns (system sample_deps [CloseOnDone, MainRead (Inr (''query'', ''10.40.30.20:0''))]
     (step sample_deps
        (WatchSelect (ConfigWatcher ''config update'' True (reads doc_malformed []))) (serving ns0))))
     = [Logf ''attempting to update resolver config...'', ReadConfig,
        Logf ''error unmarshaling json: %v'', Logf ''error updating resolver config: %w'',
        CancelF, Logf ''successfully updated resolver config'', ConnClose,
        Logf ''parsing a query'', ReadMsgUDP, Logf ''error reading UDP message: %v'',
        WatcherClose, CancelF]"
    by (simp add: step_def watchStep_def closeStep_def mainStep_def connReadMsgUDP_def
        onConfigWatcher_def update_malformed serving_def ns0_def)
  from C6_failed_reload_cancels [OF f w m c, of "''config update''" True "[]" "[]"
      "Inr (''query'', ''10.40.30.20:0'')" "[]"] f trace
  show ?thesis by (simp add: n)
qed

text \<open>
  Claim C7. \<^verbatim>\<open>query\<close> returns what \<^verbatim>\<open>n.res.Query\<close> returns for the payload, \<^verbatim>\<open>udp\<close> and the
  sender, and the task serving a datagram writes the returned bytes to the sender whether or
  not an error came with them.
\<close>

theorem C7_query_answer_is_sent:
  "query resQuery n payload add = resQuery (res n) payload ''udp'' add \<and>
   WriteToUDP (fst (query resQuery n payload add)) add
     \<in> set (newCalls n (serveDatagram resQuery payload add wr n))"
proof -
  obtain dnsAnswer err where q: "query resQuery n payload add = (dnsAnswer, err)"
    by (cases "query resQuery n payload add")
  have "\<exists>cs cs'. calls (serveDatagram resQuery payload add wr n) =
          calls n @ (cs @ WriteToUDP dnsAnswer add # cs')"
  proof (cases err)
    case None
    then show ?thesis using q
      by (cases wr) (auto simp: serveDatagram_def intro: exI [of _ "[]"])
  next
    case (Some e)
    then show ?thesis using q
      by (cases wr)
         (auto simp: serveDatagram_def intro: exI [of _ "[Logf ''error querying internal resolver: %v'']"])
  qed
  then obtain cs cs' where "newCalls n (serveDatagram resQuery payload add wr n) =
      cs @ WriteToUDP dnsAnswer add # cs'"
    using newCalls_append by blast
  then show ?thesis using q by (simp add: query_def)
qed

text \<open>
  Claim C8, as amended. When a reload succeeds, a second reload of the same reader result
  succeeds and leaves the resolver with an equal configuration, whatever the two orders of
  iteration, provided that no two hostnames with addresses share a normal form.
\<close>

theorem C8_reload_idempotent_without_aliases:
  assumes first: "fst (updateResolverConfig d i1 n) = None"
    and same: "readerResult i2 = readerResult i1"
    and wf: "\<forall>b dnsCfg. readerResult i1 = (Some b, None) \<and> Unmarshal d b = Inr dnsCfg \<longrightarrow>
               range_ok (dnsHosts dnsCfg) (rangeOrder i1) \<and>
               range_ok (dnsHosts dnsCfg) (rangeOrder i2) \<and> no_alias d (dnsHosts dnsCfg)"
  shows "fst (updateResolverConfig d i2 (snd (updateResolverConfig d i1 n))) = None \<and>
         res (snd (updateResolverConfig d i2 (snd (updateResolverConfig d i1 n)))) =
           res (snd (updateResolverConfig d i1 n))"
proof (cases rule: updateResolverConfig_cases [of i1 d n])
  case (ReadError bs e)
  then show ?thesis using first by simp
next
  case (NoConfig bs)
  then have "readerResult i2 = (bs, None)" using same by simp
  from updateResolverConfig_no_config [OF this NoConfig(2), of d] NoConfig(3) show ?thesis by simp
next
  case (BadJSON b e)
  then show ?thesis using first by simp
next
  case (BadEntry b dnsCfg format e)
  then show ?thesis using first by simp
next
  case (Applied b dnsCfg H)
  from wf Applied(1,3) have ok1: "range_ok (dnsHosts dnsCfg) (rangeOrder i1)"
    and ok2: "range_ok (dnsHosts dnsCfg) (rangeOrder i2)" and na: "no_alias d (dnsHosts dnsCfg)"
    by blast+
  from hostsLoop_order_irrelevant [OF Applied(4) ok1 ok2 na]
  have l2: "hostsLoop d (dnsHosts dnsCfg) (rangeOrder i2) Map.empty = Inr H" .
  have rd2: "readerResult i2 = (Some b, None)" using same Applied(1) by simp
  show ?thesis
    using update_applied [OF rd2 Applied(2,3) l2] Applied(5) by simp
qed

text \<open>A sample for claim C8.\<close>

theorem C8_reload_idempotent_without_aliases_witness:
  "fst (updateResolverConfig sample_deps
          (reads doc_no_addrs [''foo.bar.ts.net.'', ''baz.bar.ts.net.'']) ns0) = None \<and>
   fst (updateResolverConfig sample_deps
          (reads doc_no_addrs [''baz.bar.ts.net.'', ''foo.bar.ts.net.''])
          (snd (updateResolverConfig sample_deps
             (reads doc_no_addrs [''foo.bar.ts.net.'', ''baz.bar.ts.net.'']) ns0))) = None \<and>
   res (snd (updateResolverConfig sample_deps
          (reads doc_no_addrs [''baz.bar.ts.net.'', ''foo.bar.ts.net.''])
          (snd (updateResolverConfig sample_deps
             (reads doc_no_addrs [''foo.bar.ts.net.'', ''baz.bar.ts.net.'']) ns0)))) =
   res (snd (updateResolverConfig sample_deps
          (reads doc_no_addrs [''foo.bar.ts.net.'', ''baz.bar.ts.net.'']) ns0))"
proof -
  let ?i1 = "reads doc_no_addrs [''foo.bar.ts.net.'', ''baz.bar.ts.net.'']"
  let ?i2 = "reads doc_no_addrs [''baz.bar.ts.net.'', ''foo.bar.ts.net.'']"
  have first: "fst (updateResolverConfig sample_deps ?i1 ns0) = None"
    by (simp add: update_sample [OF doc_nonempty(6) sample_Unmarshal_simps(6)] sample_values)
  have same: "readerResult ?i2 = readerResult ?i1" by simp
  have wf: "\<forall>b dnsCfg. readerResult ?i1 = (Some b, None) \<and> Unmarshal sample_deps b = Inr dnsCfg \<longrightarrow>
               range_ok (dnsHosts dnsCfg) (rangeOrder ?i1) \<and>
               range_ok (dnsHosts dnsCfg) (rangeOrder ?i2) \<and> no_alias sample_deps (dnsHosts dnsCfg)"
    by (auto simp: sample_Unmarshal_simps range_ok_def no_alias_def no_alias_of_def sample_values)
  from C8_reload_idempotent_without_aliases [OF first same wf] first show ?thesis by simp
qed

text \<open>
  The claim as stated fails for a document in which two hostnames share a normal form: two
  reloads of the same bytes that visit the keys in different orders publish different
  addresses for \<^verbatim>\<open>foo.bar.ts.net.\<close>
\<close>

theorem C8_alias_counterexample:
  "fst (updateResolverConfig sample_deps
          (reads doc_alias [''foo.bar.ts.net'', ''foo.bar.ts.net.'']) ns0) = None \<and>
   Hosts (res (snd (updateResolverConfig sample_deps
          (reads doc_alias [''foo.bar.ts.net'', ''foo.bar.ts.net.'']) ns0))) ''foo.bar.ts.net.''
     = Some [[10, 0, 0, 1]] \<and>
   fst (updateResolverConfig sample_deps
          (reads doc_alias [''foo.bar.ts.net.'', ''foo.bar.ts.net''])
          (snd (updateResolverConfig sample_deps
             (reads doc_alias [''foo.bar.ts.net'', ''foo.bar.ts.net.'']) ns0))) = None \<and>
   Hosts (res (snd (updateResolverConfig sample_deps
          (reads doc_alias [''foo.bar.ts.net.'', ''foo.bar.ts.net''])
          (snd (updateResolverConfig sample_deps
             (reads doc_alias [''foo.bar.ts.net'', ''foo.bar.ts.net.'']) ns0))))) ''foo.bar.ts.net.''
     = Some [[10, 40, 30, 20]]"
  by (simp add: update_doc_alias)

text \<open>
  Claim C9, as amended. The watch loop returns exactly when its \<^verbatim>\<open>select\<close> takes the case
  \<^verbatim>\<open>ctx.Done()\<close>. A receive from a closed signal channel is handled as any other receive:
  the loop goes on and the reader is called again.
\<close>

theorem C9_watch_task_exits_on_done_only:
  "(fst (watchLoop d sched n) = Exited \<longleftrightarrow> CtxDone \<in> set sched) \<and>
   watchLoop d (ConfigWatcher msg False i # rest) n = watchLoop d rest (onConfigWatcher d i n) \<and>
   ReadConfig \<in> set (newCalls n (onConfigWatcher d i n))"
proof -
  let ?n1 = "logger ''attempting to update resolver config...'' n"
  obtain eo n2 where u: "updateResolverConfig d i ?n1 = (eo, n2)"
    by (cases "updateResolverConfig d i ?n1")
  from updateResolverConfig_calls [of d i ?n1] u obtain cs where
    cs: "calls n2 = calls ?n1 @ ReadConfig # cs" by auto
  have "\<exists>cs'. calls (onConfigWatcher d i n) = calls n @ 
          Logf ''attempting to update resolver config...'' # ReadConfig # cs'"
    using u cs by (cases eo) (simp_all add: onConfigWatcher_def)
  then obtain cs' where "newCalls n (onConfigWatcher d i n) =
      Logf ''attempting to update resolver config...'' # ReadConfig # cs'"
    using newCalls_append by fastforce
  then show ?thesis using watchLoop_Exited_iff [of d sched n] by simp
qed

text \<open>
  The claim as stated fails: after two receives from a closed channel the task has not
  returned and has reloaded twice.
\<close>

theorem C9_closed_channel_counterexample:
  "fst (watchLoop sample_deps
          [ConfigWatcher [] False (reads doc_foo [''foo.bar.ts.net.'']),
           ConfigWatcher [] False (reads doc_foo [''foo.bar.ts.net.''])] ns0) = Waiting \<and>
   count_list (calls (snd (watchLoop sample_deps
          [ConfigWatcher [] False (reads doc_foo [''foo.bar.ts.net.'']),
           ConfigWatcher [] False (reads doc_foo [''foo.bar.ts.net.''])] ns0))) ReadConfig = 2"
  by (simp add: onConfigWatcher_def update_doc_foo ns0_def)

text \<open>
  Claim C10, as amended. In a valid configuration, a hostname with an empty address list does
  not make the reload fail and adds no record: its normal form is absent from the published
  hosts unless another hostname has the same normal form and addresses. Every value of the
  published hosts is a singleton list of a parsed address.
\<close>

theorem C10_empty_address_list_adds_nothing:
  assumes rd: "readerResult i = (Some b, None)" and ne: "b \<noteq> []"
    and um: "Unmarshal d b = Inr dnsCfg"
    and ok: "range_ok (dnsHosts dnsCfg) (rangeOrder i)"
    and valid: "list_all (entry_ok d) (dnsHosts dnsCfg)"
    and h: "map_of (dnsHosts dnsCfg) h = Some []"
  shows "fst (updateResolverConfig d i n) = None \<and>
         (\<exists>fqdn. ToFQDN d h = Inr fqdn \<and>
            (no_alias_of d (dnsHosts dnsCfg) h \<longrightarrow>
               Hosts (res (snd (updateResolverConfig d i n))) fqdn = None)) \<and>
         (\<forall>fqdn v. Hosts (res (snd (updateResolverConfig d i n))) fqdn = Some v \<longrightarrow>
            (\<exists>a s. v = [a] \<and> ParseAddr d s = Inr a))"
proof -
  let ?m = "dnsHosts dnsCfg"
  from hostsLoop_valid [OF valid] obtain H
    where loop: "hostsLoop d ?m (rangeOrder i) Map.empty = Inr H" by blast
  note facts = update_applied_facts [OF rd ne um loop, of n]
  from h have "(h, []) \<in> set ?m" by (rule map_of_SomeD)
  with valid have "entry_ok d (h, [])" by (simp add: list_all_iff)
  then obtain fqdn where fq: "ToFQDN d h = Inr fqdn"
    by (cases "ToFQDN d h") (auto simp: entry_ok_def)
  have absent: "H fqdn = None" if na: "no_alias_of d ?m h"
  proof -
    have "\<forall>h'\<in>set (rangeOrder i). ToFQDN d h' = Inr fqdn \<longrightarrow>
            map_of ?m h' = None \<or> map_of ?m h' = Some []"
    proof (intro ballI impI)
      fix h' assume h': "h' \<in> set (rangeOrder i)" and f': "ToFQDN d h' = Inr fqdn"
      show "map_of ?m h' = None \<or> map_of ?m h' = Some []"
      proof (cases "h' = h")
        case True
        then show ?thesis using h by simp
      next
        case False
        from h' ok have "h' \<in> set (map fst ?m)" by (simp add: range_ok_def)
        from no_alias_ofD [OF na this False] f' fq show ?thesis by simp
      qed
    qed
    from hostsLoop_untouched [OF loop this] show ?thesis by simp
  qed
  have vals: "\<exists>a s. v = [a] \<and> ParseAddr d s = Inr a" if "H fq' = Some v" for fq' v
    using hostsLoop_values [OF loop _ that] by simp
  show ?thesis using facts(1,2) fq absent vals by auto
qed

text \<open>A sample for claim C10.\<close>

theorem C10_empty_address_list_adds_nothing_witness:
  "sample_ToFQDN ''foo.bar.ts.net.'' = Inr ''foo.bar.ts.net.'' \<and>
   fst (updateResolverConfig sample_deps
          (reads doc_no_addrs [''foo.bar.ts.net.'', ''baz.bar.ts.net.'']) ns0) = None \<and>
   Hosts (res (snd (updateResolverConfig sample_deps
          (reads doc_no_addrs [''foo.bar.ts.net.'', ''baz.bar.ts.net.'']) ns0)))
     ''foo.bar.ts.net.'' = None"
proof -
  let ?i = "reads doc_no_addrs [''foo.bar.ts.net.'', ''baz.bar.ts.net.'']"
  let ?m = "[(''foo.bar.ts.net.'', []), (''baz.bar.ts.net.'', [''10.40.30.20''])]"
  have rd: "readerResult ?i = (Some doc_no_addrs, None)" by simp
  have um: "Unmarshal sample_deps doc_no_addrs = Inr \<lparr>dnsHosts = ?m\<rparr>"
    by (simp add: sample_Unmarshal_simps)
  have ok: "range_ok (dnsHosts \<lparr>dnsHosts = ?m\<rparr>) (rangeOrder ?i)"
    by (auto simp: range_ok_def)
  have valid: "list_all (entry_ok sample_deps) (dnsHosts \<lparr>dnsHosts = ?m\<rparr>)"
    by (simp add: entry_ok_def sample_values)
  have h: "map_of (dnsHosts \<lparr>dnsHosts = ?m\<rparr>) ''foo.bar.ts.net.'' = Some []" by simp
  have na: "no_alias_of sample_deps (dnsHosts \<lparr>dnsHosts = ?m\<rparr>) ''foo.bar.ts.net.''"
    by (simp add: no_alias_of_def sample_values)
  from C10_empty_address_list_adds_nothing [OF rd doc_nonempty(6) um ok valid h, of ns0] na
  show ?thesis by (auto simp: sample_values)
qed

text \<open>
  The claim as stated fails when another hostname shares the normal form: the hostname
  \<^verbatim>\<open>foo.bar.ts.net\<close> has no addresses, and its normal form is published with the address of
  \<^verbatim>\<open>foo.bar.ts.net.\<close> It also fails when the rest of the document is not valid: a document
  with a hostname without addresses and an address that does not parse is rejected.
\<close>

theorem C10_alias_counterexample:
  "sample_Unmarshal doc_alias_no_addrs =
     Inr \<lparr>dnsHosts = [(''foo.bar.ts.net'', []), (''foo.bar.ts.net.'', [''10.20.30.40''])]\<rparr> \<and>
   sample_ToFQDN ''foo.bar.ts.net'' = Inr ''foo.bar.ts.net.'' \<and>
   fst (updateResolverConfig sample_deps
          (reads doc_alias_no_addrs [''foo.bar.ts.net'', ''foo.bar.ts.net.'']) ns0) = None \<and>
   Hosts (res (snd (updateResolverConfig sample_deps
          (reads doc_alias_no_addrs [''foo.bar.ts.net'', ''foo.bar.ts.net.'']) ns0)))
     ''foo.bar.ts.net.'' = Some [[10, 20, 30, 40]] \<and>
   fst (updateResolverConfig sample_deps
          (reads doc_no_addrs_bad [''foo.bar.ts.net.'', ''baz.bar.ts.net.'']) ns0)
     = Some (Error ''unable to parse IP'')"
  by (simp add: update_sample [OF doc_nonempty(7) sample_Unmarshal_simps(7)]
      update_sample [OF doc_nonempty(9) sample_Unmarshal_simps(9)]
      sample_Unmarshal_simps sample_values sample_ParseAddr_def)

end
